theory Spec2Isabelle
  imports Main
begin

text \<open>
  A model of the service worker \<^verbatim>\<open>src/sw.js\<close> of sw-tools: the configuration merge,
  the rewriting of HTML bodies (deferred images and YouTube frames), the two fetch
  flows with the cache storage, the trimming of the caches and the retry queue of the
  analytics requests.

  The worker is event driven and single threaded.  A promise chain is modelled by the
  state it leaves when it has settled, with \<open>None\<close> for a rejection; the cache storage,
  the network and IndexedDB are the platform, modelled by what the worker can observe of
  them: ordered lists of entries, a function from URLs to responses, a list of records
  with distinct keys.
\<close>

section \<open>Configuration values\<close>

text \<open>
  The configuration of the service worker (\<^verbatim>\<open>config\<close> in \<^verbatim>\<open>sw.js\<close>) and the override
  posted by the page are JavaScript values, trees without shared parts.  An object is
  a list of properties in insertion order; the keys of a JavaScript object are pairwise
  distinct, which \<open>wellFormed\<close> states.  Numbers are integers here (the configuration
  only holds counts and milliseconds); \<open>0\<close> is the falsy number.
\<close>

datatype json =
    JUndefined
  | JNull
  | JBool bool
  | JNum int
  | JStr string
  | JArr "json list"
  | JObj "(string \<times> json) list"

text \<open>
  \<^verbatim>\<open>isObject(item)\<close>:
  \<^verbatim>\<open>item && 'object' === typeof item && !Array.isArray(item) && null !== item\<close>.
\<close>

fun isObject :: "json \<Rightarrow> bool" where
  "isObject (JObj _) = True"
| "isObject _ = False"

text \<open>JavaScript truthiness, as \<^verbatim>\<open>!target[key]\<close> tests it.\<close>

fun truthy :: "json \<Rightarrow> bool" where
  "truthy JUndefined = False"
| "truthy JNull = False"
| "truthy (JBool b) = b"
| "truthy (JNum n) = (n \<noteq> 0)"
| "truthy (JStr s) = (s \<noteq> [])"
| "truthy (JArr _) = True"
| "truthy (JObj _) = True"

text \<open>\<^verbatim>\<open>target[key]\<close>: the value of the property, \<^verbatim>\<open>undefined\<close> when there is none.\<close>

fun getProp :: "(string \<times> json) list \<Rightarrow> string \<Rightarrow> json" where
  "getProp [] key = JUndefined"
| "getProp ((k, v) # kvs) key = (if k = key then v else getProp kvs key)"

text \<open>
  \<^verbatim>\<open>Object.assign(target, { [key]: v })\<close>: an existing property keeps its place and
  takes the new value, a new property is added last.
\<close>

fun assign :: "string \<Rightarrow> json \<Rightarrow> (string \<times> json) list \<Rightarrow> (string \<times> json) list" where
  "assign key v [] = [(key, v)]"
| "assign key v ((k, v') # kvs) =
     (if k = key then (k, v) # kvs else (k, v') # assign key v kvs)"

text \<open>
  \<^verbatim>\<open>mergeDeep(target, source)\<close>.  \<open>mergeKeys\<close> is the body of
  \<^verbatim>\<open>Object.keys(source).forEach(key => ...)\<close>, one property of the source at a time.
  The source mutates \<^verbatim>\<open>target[key]\<close> in place through the recursive call and drops the
  call's result; here the property is set to the value the call returns, which is the
  mutated object when \<^verbatim>\<open>target[key]\<close> is an object and \<^verbatim>\<open>target[key]\<close> itself,
  unchanged, when it is not (the recursive call then does nothing).
\<close>

fun mergeDeep :: "json \<Rightarrow> json \<Rightarrow> json"
  and mergeKeys :: "(string \<times> json) list \<Rightarrow> (string \<times> json) list \<Rightarrow> (string \<times> json) list" where
  "mergeDeep target (JObj src) =
     (case target of JObj tgt \<Rightarrow> JObj (mergeKeys tgt src) | _ \<Rightarrow> target)"
| "mergeDeep target JUndefined = target"
| "mergeDeep target JNull = target"
| "mergeDeep target (JBool b) = target"
| "mergeDeep target (JNum n) = target"
| "mergeDeep target (JStr s) = target"
| "mergeDeep target (JArr xs) = target"
| "mergeKeys tgt [] = tgt"
| "mergeKeys tgt ((key, v) # rest) =
     mergeKeys
       (if isObject v then
          (let tgt' = (if \<not> truthy (getProp tgt key) then assign key (JObj []) tgt else tgt)
           in assign key (mergeDeep (getProp tgt' key) v) tgt')
        else assign key v tgt)
       rest"

text \<open>The keys of every object reached by the merge are pairwise distinct.\<close>

fun wellFormed :: "json \<Rightarrow> bool" where
  "wellFormed (JObj kvs) = (distinct (map fst kvs) \<and> (\<forall>kv \<in> set kvs. wellFormed (snd kv)))"
| "wellFormed _ = True"

text \<open>The editable default configuration of \<^verbatim>\<open>sw.js\<close> (\<^verbatim>\<open>var config = {...}\<close>).\<close>

definition defaultConfig :: json where
  "defaultConfig =
     JObj [(''cache'', JObj [(''enabled'', JBool True)]),
           (''prefetch'', JObj [(''enabled'', JBool True)]),
           (''defer'', JObj [(''images'', JObj [(''color'', JStr ''#D8D8D8'')]),
                            (''youtube'', JObj [(''enabled'', JBool True)])]),
           (''analytics'', JObj [(''enabled'', JBool True),
                                (''maxTime'', JNum (24 * 60 * 60 * 1000))])]"

text \<open>
  The value a property of the target holds after one property \<open>v\<close> of the source has
  been merged into it, from the value \<open>x\<close> it held before.
\<close>

definition mergedValue :: "json \<Rightarrow> json \<Rightarrow> json" where
  "mergedValue v x =
     (if isObject v then mergeDeep (if truthy x then x else JObj []) v else v)"


section \<open>Strings\<close>

text \<open>
  A string is a list of 8-bit characters; the markup and the URLs of the statements
  below are ASCII.  \<open>indexOf\<close>, \<open>substr\<close> and the replacement patterns follow the
  ECMAScript definitions of \<^verbatim>\<open>String.prototype.indexOf\<close>, \<^verbatim>\<open>substr\<close> and
  \<^verbatim>\<open>replace\<close>; \<open>indexOf\<close> is \<open>-1\<close> when the pattern does not occur.
\<close>

fun startsWith :: "string \<Rightarrow> string \<Rightarrow> bool" where
  "startsWith s [] = True"
| "startsWith [] (p # ps) = False"
| "startsWith (c # cs) (p # ps) = (c = p \<and> startsWith cs ps)"

fun indexFrom :: "nat \<Rightarrow> string \<Rightarrow> string \<Rightarrow> int" where
  "indexFrom i [] pat = (if pat = [] then int i else - 1)"
| "indexFrom i (c # cs) pat =
     (if startsWith (c # cs) pat then int i else indexFrom (Suc i) cs pat)"

definition indexOf :: "string \<Rightarrow> string \<Rightarrow> int" where
  "indexOf s pat = indexFrom 0 s pat"

text \<open>
  \<^verbatim>\<open>s.substr(start, len)\<close>: a negative start counts from the end, and the length is
  clamped to what is left of the string.
\<close>

definition substr :: "string \<Rightarrow> int \<Rightarrow> int \<Rightarrow> string" where
  "substr s start len =
     (let size = int (length s);
          from = (if start < 0 then max (size + start) 0 else min start size);
          n = min (max len 0) (size - from)
      in take (nat n) (drop (nat from) s))"

text \<open>Decimal digits of a number, as \<^verbatim>\<open>'&qt=' + queueTime\<close> prints an integer.\<close>

definition digitChar :: "nat \<Rightarrow> char" where
  "digitChar n = ''0123456789'' ! (n mod 10)"

function natToString :: "nat \<Rightarrow> string" where
  "natToString n = (if n < 10 then [digitChar n] else natToString (n div 10) @ [digitChar n])"
  by pat_completeness auto
termination
  by (relation "measure id") auto

declare natToString.simps [simp del]

definition numberToString :: "int \<Rightarrow> string" where
  "numberToString i = (if i < 0 then CHR ''-'' # natToString (nat (- i)) else natToString (nat i))"


section \<open>Regular expressions\<close>

text \<open>
  The regular expressions of \<^verbatim>\<open>sw.js\<close> use literal characters, character classes,
  sequences, greedy repetition and capture groups.  \<open>rmatch r (s, caps)\<close> lists every
  way \<open>r\<close> matches a prefix of \<open>s\<close>, as the rest of the input with the captures, in the
  order a backtracking matcher tries them: a greedy \<^verbatim>\<open>*\<close> tries one more repetition
  before it tries none, and a repetition that consumes nothing is not taken.  The first
  element of the list is the match ECMAScript reports.
\<close>

datatype regex =
    Eps
  | Sym "char \<Rightarrow> bool"
  | Seq regex regex
  | Star regex
  | Group nat regex

type_synonym captures = "(nat \<times> string) list"

function rmatch :: "regex \<Rightarrow> string \<times> captures \<Rightarrow> (string \<times> captures) list" where
  "rmatch Eps st = [st]"
| "rmatch (Sym p) (s, caps) =
     (case s of [] \<Rightarrow> [] | c # cs \<Rightarrow> if p c then [(cs, caps)] else [])"
| "rmatch (Seq a b) st = concat (map (rmatch b) (rmatch a st))"
| "rmatch (Star a) st =
     concat (map (\<lambda>st'. if length (fst st') < length (fst st) then rmatch (Star a) st' else [])
                 (rmatch a st)) @ [st]"
| "rmatch (Group n a) (s, caps) =
     map (\<lambda>(s', caps'). (s', (n, take (length s - length s') s) # caps')) (rmatch a (s, caps))"
  by pat_completeness auto
termination
  by (relation "measures [\<lambda>(r, st). size r, \<lambda>(r, st). length (fst st)]") auto

declare rmatch.simps(4) [simp del]

fun groupCount :: "regex \<Rightarrow> nat" where
  "groupCount Eps = 0"
| "groupCount (Sym p) = 0"
| "groupCount (Seq a b) = groupCount a + groupCount b"
| "groupCount (Star a) = groupCount a"
| "groupCount (Group n a) = Suc (groupCount a)"

text \<open>
  The leftmost match: \<open>search r skipped s\<close> tries each start position of \<open>s\<close> in turn
  and returns the text before the match, the matched text, the text after it and the
  captures.
\<close>

fun search :: "regex \<Rightarrow> string \<Rightarrow> string \<Rightarrow> (string \<times> string \<times> string \<times> captures) option" where
  "search r skipped s =
     (case rmatch r (s, []) of
        (rest, caps) # _ \<Rightarrow> Some (skipped, take (length s - length rest) s, rest, caps)
      | [] \<Rightarrow> (case s of [] \<Rightarrow> None | c # cs \<Rightarrow> search r (skipped @ [c]) cs))"

text \<open>
  The replacement patterns of \<^verbatim>\<open>String.prototype.replace\<close> (GetSubstitution):
  \<^verbatim>\<open>$$\<close>, \<^verbatim>\<open>$&\<close>, the text before and after the match, and \<^verbatim>\<open>$n\<close>, \<^verbatim>\<open>$nn\<close> for
  the captures of a pattern with \<open>m\<close> groups.  A reference to a group the pattern does
  not have stays as it is written.
\<close>

definition digitVal :: "char \<Rightarrow> nat option" where
  "digitVal c = map_of (zip ''0123456789'' [0, 1, 2, 3, 4, 5, 6, 7, 8, 9]) c"

definition capture :: "nat \<Rightarrow> captures \<Rightarrow> nat \<Rightarrow> string \<Rightarrow> string" where
  "capture m caps index ref =
     (if 1 \<le> index \<and> index \<le> m
      then (case map_of caps index of Some s \<Rightarrow> s | None \<Rightarrow> [])
      else ref)"

fun expand :: "string \<Rightarrow> string \<Rightarrow> string \<Rightarrow> string \<Rightarrow> nat \<Rightarrow> captures \<Rightarrow> string" where
  "expand [] matched pre post m caps = []"
| "expand (c # t) matched pre post m caps =
     (if c \<noteq> CHR ''$'' then c # expand t matched pre post m caps
      else (case t of
          [] \<Rightarrow> [c]
        | d # t' \<Rightarrow>
            if d = CHR ''$'' then CHR ''$'' # expand t' matched pre post m caps
            else if d = CHR ''&'' then matched @ expand t' matched pre post m caps
            else if d = CHR 0x60 then pre @ expand t' matched pre post m caps
            else if d = CHR 0x27 then post @ expand t' matched pre post m caps
            else (case digitVal d of
                None \<Rightarrow> c # expand t matched pre post m caps
              | Some n1 \<Rightarrow>
                  (case t' of
                     [] \<Rightarrow> capture m caps n1 [c, d]
                   | e # t'' \<Rightarrow>
                       (case digitVal e of
                          None \<Rightarrow> capture m caps n1 [c, d] @ expand t' matched pre post m caps
                        | Some n2 \<Rightarrow>
                            if 10 * n1 + n2 \<le> m
                            then capture m caps (10 * n1 + n2) [c, d, e]
                                   @ expand t'' matched pre post m caps
                            else capture m caps n1 [c, d]
                                   @ expand t' matched pre post m caps)))))"

lemma rmatch_length:
  "(s', caps') \<in> set (rmatch r (s, caps)) \<Longrightarrow> length s' \<le> length s"
proof (induction r "(s, caps)" arbitrary: s caps s' caps' rule: rmatch.induct)
  case 1
  then show ?case by simp
next
  case (2 p s caps)
  then show ?case by (auto split: list.splits if_splits)
next
  case (3 a b)
  from "3.prems" obtain s1 c1 where a: "(s1, c1) \<in> set (rmatch a (s, caps))"
    and b: "(s', caps') \<in> set (rmatch b (s1, c1))" by auto
  from "3.hyps"(1)[OF a] "3.hyps"(2)[OF a b] show ?case by simp
next
  case (4 a)
  show ?case
  proof (cases "(s', caps') = (s, caps)")
    case True
    then show ?thesis by simp
  next
    case False
    from "4.prems" have "(s', caps') \<in> set (concat (map (\<lambda>st'.
          if length (fst st') < length (fst (s, caps)) then rmatch (Star a) st' else [])
            (rmatch a (s, caps))) @ [(s, caps)])"
      by (subst (asm) rmatch.simps(4))
    with False obtain s1 c1 where a: "(s1, c1) \<in> set (rmatch a (s, caps))"
      and lt: "length s1 < length s"
      and b: "(s', caps') \<in> set (rmatch (Star a) (s1, c1))"
      by (auto split: if_splits)
    from "4.hyps"(2)[OF a _ b] lt show ?thesis by simp
  qed
next
  case (5 n a s caps)
  then show ?case by auto
qed

declare search.simps [simp del]

lemma search_length:
  "search r skipped s = Some (skipped', matched, rest, caps) \<Longrightarrow>
   length rest \<le> length s \<and> (matched \<noteq> [] \<longrightarrow> length rest < length s)"
proof (induction s arbitrary: skipped)
  case Nil
  show ?case
  proof (cases "rmatch r ([], [])")
    case Nil
    with Nil.prems show ?thesis by (simp add: search.simps)
  next
    case (Cons st sts)
    obtain s1 c1 where st: "st = (s1, c1)" by (cases st)
    with Cons have "(s1, c1) \<in> set (rmatch r ([], []))" by simp
    from rmatch_length[OF this] Cons st Nil.prems show ?thesis
      by (auto simp: search.simps)
  qed
next
  case (Cons c cs)
  show ?case
  proof (cases "rmatch r (c # cs, [])")
    case Nil
    with Cons.prems have "search r (skipped @ [c]) cs = Some (skipped', matched, rest, caps)"
      by (simp add: search.simps)
    from Cons.IH[OF this] show ?thesis by auto
  next
    case (Cons st sts)
    obtain s1 c1 where st: "st = (s1, c1)" by (cases st)
    with Cons have "(s1, c1) \<in> set (rmatch r (c # cs, []))" by simp
    from rmatch_length[OF this] Cons st Cons.prems show ?thesis
      by (auto simp: search.simps)
  qed
qed

text \<open>
  \<^verbatim>\<open>s.replace(/r/g, tmpl)\<close>: every match, from left to right, is replaced by the
  expanded template; the search resumes after the match (one character further after
  an empty match).  \<open>pre\<close> is the text of the whole string before \<open>s\<close>.
\<close>

function replaceAll :: "regex \<Rightarrow> string \<Rightarrow> string \<Rightarrow> string \<Rightarrow> string" where
  "replaceAll r tmpl pre s =
     (case search r [] s of
        None \<Rightarrow> s
      | Some (skipped, matched, rest, caps) \<Rightarrow>
          skipped @ expand tmpl matched (pre @ skipped) rest (groupCount r) caps @
          (if matched = []
           then (case rest of
                   [] \<Rightarrow> []
                 | c # cs \<Rightarrow> c # replaceAll r tmpl (pre @ skipped @ [c]) cs)
           else replaceAll r tmpl (pre @ skipped @ matched) rest))"
  by pat_completeness auto
termination
proof (relation "measure (\<lambda>(r, tmpl, pre, s). length s)", goal_cases)
  case 1
  show ?case by simp
next
  case (2 r tmpl pre s x2 skipped y matched z rest caps c cs)
  then have "search r [] s = Some (skipped, matched, c # cs, caps)" by simp
  from search_length[OF this] show ?case by simp
next
  case (3 r tmpl pre s x2 skipped y matched z rest caps)
  then have "search r [] s = Some (skipped, matched, rest, caps)" by simp
  from search_length[OF this] 3 show ?case by simp
qed

declare replaceAll.simps [simp del]

text \<open>
  \<^verbatim>\<open>s.replace(pat, repl)\<close> with a string pattern: the first occurrence of \<open>pat\<close> is
  replaced, and \<open>repl\<close> is still read as a template (there are no captures).
\<close>

definition stringReplace :: "string \<Rightarrow> string \<Rightarrow> string \<Rightarrow> string" where
  "stringReplace s pat repl =
     (let i = indexOf s pat
      in if i = - 1 then s
         else (let pre = take (nat i) s; post = drop (nat i + length pat) s
               in pre @ expand repl pat pre post 0 [] @ post))"

text \<open>
  \<^verbatim>\<open>s.match(/r/)\<close> without the global flag, read at capture 1: \<open>None\<close> when there
  is no match (the code then takes \<^verbatim>\<open>false\<close>).
\<close>

definition matchGroup1 :: "regex \<Rightarrow> string \<Rightarrow> string option" where
  "matchGroup1 r s =
     (case search r [] s of
        None \<Rightarrow> None
      | Some (skipped, matched, rest, caps) \<Rightarrow>
          Some (case map_of caps 1 of Some g \<Rightarrow> g | None \<Rightarrow> []))"

text \<open>Building blocks of the patterns.\<close>

fun lit :: "string \<Rightarrow> regex" where
  "lit [] = Eps"
| "lit (c # cs) = Seq (Sym (\<lambda>x. x = c)) (lit cs)"

text \<open>
  With the \<^verbatim>\<open>i\<close> flag a letter of the pattern matches both of its cases.  The
  patterns of \<^verbatim>\<open>sw.js\<close> hold ASCII letters only.
\<close>

definition upperCase :: "char \<Rightarrow> char" where
  "upperCase c =
     (case map_of (zip ''abcdefghijklmnopqrstuvwxyz'' ''ABCDEFGHIJKLMNOPQRSTUVWXYZ'') c of
        Some u \<Rightarrow> u
      | None \<Rightarrow> c)"

fun litCI :: "string \<Rightarrow> regex" where
  "litCI [] = Eps"
| "litCI (c # cs) = Seq (Sym (\<lambda>x. upperCase x = upperCase c)) (litCI cs)"

definition digit :: regex where
  "digit = Sym (\<lambda>c. c \<in> set ''0123456789'')"

text \<open>\<^verbatim>\<open>.\<close> matches every character but a line terminator.\<close>

definition dot :: regex where
  "dot = Sym (\<lambda>c. c \<noteq> CHR 0x0A \<and> c \<noteq> CHR 0x0D)"

definition plus :: "regex \<Rightarrow> regex" where
  "plus r = Seq r (Star r)"

text \<open>\<^verbatim>\<open>/width="(\d+)"/\<close> and \<^verbatim>\<open>/height="(\d+)"/\<close>.\<close>

definition widthRe :: regex where
  "widthRe = Seq (lit ''width=\"'') (Seq (Group 1 (plus digit)) (lit ''\"''))"

definition heightRe :: regex where
  "heightRe = Seq (lit ''height=\"'') (Seq (Group 1 (plus digit)) (lit ''\"''))"

text \<open>\<^verbatim>\<open>/src="(.*)(\?[0-9]+)*"/gi\<close>.\<close>

definition srcRe :: regex where
  "srcRe =
     Seq (litCI ''src=\"'')
       (Seq (Group 1 (Star dot))
          (Seq (Star (Group 2 (Seq (lit ''?'') (plus digit))))
             (lit ''\"'')))"

text \<open>
  \<^verbatim>\<open>/<iframe (.*) src="https:\/\/www.youtube.com\/embed\/([a-z0-9\-]+)" (.*)><\/iframe>/gi\<close>;
  the two dots of the host name are not escaped in the source and match any character.
\<close>

definition youtubeRe :: regex where
  "youtubeRe =
     Seq (litCI ''<iframe '')
       (Seq (Group 1 (Star dot))
          (Seq (litCI '' src=\"https://www'')
             (Seq dot
                (Seq (litCI ''youtube'')
                   (Seq dot
                      (Seq (litCI ''com/embed/'')
                         (Seq (Group 2 (plus (Sym (\<lambda>c. upperCase c \<in> set
                                  ''ABCDEFGHIJKLMNOPQRSTUVWXYZ0123456789-''))))
                            (Seq (lit ''\" '')
                               (Seq (Group 3 (Star dot))
                                  (litCI ''></iframe>''))))))))))"

text \<open>
  The replacement of the video pass.  The play glyph of the source (U+25B6) is written as
  its three UTF-8 bytes.
\<close>

definition youtubeTemplate :: string where
  "youtubeTemplate =
     ''<div style=\"overflow:hidden;padding-top:56.25%;position:relative;\">''
     @ ''<iframe style=\"border:0;height:100%;left:0;position:absolute;top:0;width:100%;\"''
     @ '' $1 src=\"https://www.youtube.com/embed/$2\" srcdoc=\"''
     @ ''<style>*{padding:0;margin:0;overflow:hidden}html,body{height:100%}''
     @ ''img,span{position:absolute;width:100%;top:0;bottom:0;margin:auto}''
     @ ''span{height:1.5em;text-align:center;font:48px/1.5 sans-serif;color:white;''
     @ ''text-shadow:0 0 0.5em black}</style>''
     @ ''<a href=https://www.youtube.com/embed/$2?autoplay=1>''
     @ ''<img src=https://img.youtube.com/vi/$2/hqdefault.jpg><span>''
     @ [CHR 0xE2, CHR 0x96, CHR 0xB6]
     @ ''</span></a>\" $3></iframe></div>''"

text \<open>\<^verbatim>\<open>btoa\<close>: the Base64 encoding of a string of 8-bit characters.\<close>

definition b64 :: "nat \<Rightarrow> char" where
  "b64 n = ''ABCDEFGHIJKLMNOPQRSTUVWXYZabcdefghijklmnopqrstuvwxyz0123456789+/'' ! (n mod 64)"

fun btoa :: "string \<Rightarrow> string" where
  "btoa [] = []"
| "btoa [a] =
     (let x = (of_char a :: nat)
      in [b64 (x div 4), b64 ((x mod 4) * 16), CHR ''='', CHR ''=''])"
| "btoa [a, b] =
     (let x = (of_char a :: nat); y = (of_char b :: nat)
      in [b64 (x div 4), b64 ((x mod 4) * 16 + y div 16), b64 ((y mod 16) * 4), CHR ''=''])"
| "btoa (a # b # c # rest) =
     (let x = (of_char a :: nat); y = (of_char b :: nat); z = (of_char c :: nat)
      in [b64 (x div 4), b64 ((x mod 4) * 16 + y div 16), b64 ((y mod 16) * 4 + z div 64),
          b64 z] @ btoa rest)"


section \<open>The service worker\<close>

subsection \<open>Configuration, requests and responses\<close>

text \<open>
  The fields of the effective configuration that the functions below read.  A field
  the code tests for presence (\<^verbatim>\<open>config.cache.maxItems\<close>, \<^verbatim>\<open>config.offline\<close>, ...) is an
  option; a flag the code tests for truthiness is a boolean.  An exclusion pattern is a
  regular expression of the page, taken as the predicate \<^verbatim>\<open>pattern.test\<close> computes.
\<close>

record offlineConfig =
  page :: "string option"
  image :: "string option"

record config =
  cacheEnabled :: bool
  maxItems :: "int option"
  noCachePatterns :: "(string \<Rightarrow> bool) list option"
  noCacheItems :: "string list option"
  prefetchEnabled :: bool
  offline :: "offlineConfig option"
  deferImagesColor :: string
  deferYoutubeEnabled :: bool
  analyticsMaxTime :: "int option"

text \<open>\<^verbatim>\<open>globalConfig.version\<close>.\<close>

definition version :: string where
  "version = ''v1.0.0''"

text \<open>
  A request as the fetch event carries it: its URL (absolute, as the platform
  serialises it), its method and its \<^verbatim>\<open>Accept\<close> header, which the platform sets on
  every request before the worker sees it.
\<close>

record request =
  url :: string
  httpMethod :: string
  accept :: string

record response =
  status :: nat
  statusText :: string
  headers :: "(string \<times> string) list"
  body :: string

text \<open>\<^verbatim>\<open>response.ok\<close>: the status is in the range 200 to 299.\<close>

definition ok :: "response \<Rightarrow> bool" where
  "ok r = (200 \<le> status r \<and> status r \<le> 299)"

text \<open>
  \<^verbatim>\<open>new Response(body, { headers: h })\<close>: the init object names no status, so the
  response has the default status 200 and an empty status text.
\<close>

definition newResponse :: "string \<Rightarrow> (string \<times> string) list \<Rightarrow> response" where
  "newResponse b h = \<lparr>status = 200, statusText = [], headers = h, body = b\<rparr>"

text \<open>
  \<^verbatim>\<open>new URL(request.url)\<close> on a serialised URL \<^verbatim>\<open>scheme://authority/path?query#fragment\<close>:
  the origin is the scheme with the authority, the path name runs to the query or the
  fragment and is \<^verbatim>\<open>/\<close> when the URL has no path.  \<open>None\<close> is the \<^verbatim>\<open>TypeError\<close> of a
  string that is no absolute URL.
\<close>

definition parseURL :: "string \<Rightarrow> (string \<times> string) option" where
  "parseURL u =
     (let i = indexOf u ''://''
      in if i = - 1 then None
         else (let hostStart = nat i + 3;
                   authority = takeWhile (\<lambda>c. c \<notin> set ''/?#'') (drop hostStart u);
                   rest = drop (hostStart + length authority) u;
                   path = takeWhile (\<lambda>c. c \<notin> set ''?#'') rest
               in Some (take hostStart u @ authority, if path = [] then ''/'' else path)))"


subsection \<open>The image pass\<close>

text \<open>\<^verbatim>\<open>newBase64Image(width, height)\<close>.\<close>

definition newBase64Image :: "config \<Rightarrow> string \<Rightarrow> string \<Rightarrow> string" where
  "newBase64Image cfg width height =
     ''data:image/svg+xml;base64,''
     @ btoa (''<svg role=\"img\" aria-labelledby=\"offline-title\" viewBox=\"0 0 '' @ width
             @ '' '' @ height
             @ ''\" xmlns=\"http://www.w3.org/2000/svg\"><g fill=\"none\" fill-rule=\"evenodd\">''
             @ ''<path fill=\"'' @ deferImagesColor cfg @ ''\" d=\"M0 0h'' @ width @ ''v''
             @ height @ ''H0z\"/></g></svg>'')"

text \<open>
  \<^verbatim>\<open>setImage(image)\<close>.  \<^verbatim>\<open>!width || !height\<close> holds when a pattern does not match
  (the value is \<^verbatim>\<open>false\<close>) or the capture is the empty string.
\<close>

definition setImage :: "config \<Rightarrow> string \<Rightarrow> string" where
  "setImage cfg img =
     (case (matchGroup1 widthRe img, matchGroup1 heightRe img) of
        (Some width, Some height) \<Rightarrow>
          if width = [] \<or> height = [] then img
          else replaceAll srcRe
                 (''src=\"'' @ newBase64Image cfg width height @ ''\" data-defer-src=\"$1\"'')
                 [] img
      | _ \<Rightarrow> img)"

text \<open>\<^verbatim>\<open>getTextPart(text, start, end)\<close>.\<close>

definition getTextPart :: "string \<Rightarrow> string \<Rightarrow> string \<Rightarrow> string" where
  "getTextPart text start end' =
     (let text1 = substr text (indexOf text start) (int (length text))
      in substr text1 0 (indexOf text1 end' + 1))"

text \<open>
  A piece cut out of a string by \<open>substr\<close> occurs in the string, so \<open>indexOf\<close> finds
  it.  This is what makes the loop of \<^verbatim>\<open>changeImages\<close> advance.
\<close>

lemma startsWith_append: "startsWith (pat @ post) pat"
  by (induction pat) auto

lemma indexFrom_found: "indexFrom i (pre @ pat @ post) pat \<noteq> - 1"
proof (induction pre arbitrary: i)
  case Nil
  show ?case
    by (cases "pat @ post") (use startsWith_append[of pat post] in \<open>auto split: if_splits\<close>)
next
  case (Cons c pre)
  then show ?case by simp
qed

lemma indexFrom_range: "indexFrom i s pat = - 1 \<or> (int i \<le> indexFrom i s pat)"
  by (induction i s pat rule: indexFrom.induct) (auto split: if_splits)

lemma substr_occurs: "\<exists>pre post. s = pre @ substr s start len @ post"
proof -
  have "\<And>n k. s = take k s @ take n (drop k s) @ drop n (drop k s)"
    by (metis append_take_drop_id)
  then show ?thesis
    unfolding substr_def Let_def by blast
qed

lemma getTextPart_occurs: "\<exists>pre post. s = pre @ getTextPart s a b @ post"
proof -
  let ?t = "substr s (indexOf s a) (int (length s))"
  obtain p1 q1 where 1: "s = p1 @ ?t @ q1"
    using substr_occurs by blast
  obtain p2 q2 where 2: "?t = p2 @ substr ?t 0 (indexOf ?t b + 1) @ q2"
    using substr_occurs by blast
  have "s = (p1 @ p2) @ getTextPart s a b @ (q2 @ q1)"
    using 1 2 unfolding getTextPart_def Let_def
    by (metis append.assoc)
  then show ?thesis by blast
qed

lemma indexOf_getTextPart: "0 \<le> indexOf s (getTextPart s a b)"
proof -
  obtain pre post where "s = pre @ getTextPart s a b @ post"
    using getTextPart_occurs by blast
  then have "indexFrom 0 s (getTextPart s a b) \<noteq> - 1"
    using indexFrom_found[of 0 pre "getTextPart s a b" post] by simp
  with indexFrom_range[of 0 s "getTextPart s a b"] show ?thesis
    by (simp add: indexOf_def)
qed

lemma indexOf_Nil: "pat \<noteq> [] \<Longrightarrow> indexOf [] pat = - 1"
  by (simp add: indexOf_def)

text \<open>
  \<^verbatim>\<open>changeImages(html)\<close>.  The loop variable \<^verbatim>\<open>origin\<close> of the source is
  \<^verbatim>\<open>cloned.indexOf('<img')\<close> at every test of the loop condition (\<^verbatim>\<open>cloned\<close> is
  \<^verbatim>\<open>html\<close> at the first one), so the condition is computed from \<open>cloned\<close> here.
\<close>

function changeImagesLoop :: "config \<Rightarrow> string \<Rightarrow> string \<Rightarrow> string" where
  "changeImagesLoop cfg html cloned =
     (if indexOf cloned ''<img'' = - 1 then html
      else (let oldImage = getTextPart cloned ''<img'' ''>'';
                html' = (if - 1 < indexOf oldImage ''data-defer''
                         then stringReplace html oldImage (setImage cfg oldImage)
                         else html);
                cloned' = substr cloned (indexOf cloned oldImage + 1) (int (length cloned))
            in changeImagesLoop cfg html' cloned'))"
  by pat_completeness auto
termination
proof (relation "measure (\<lambda>(cfg, html, cloned). length cloned)", goal_cases)
  case 1
  show ?case by simp
next
  case (2 cfg html cloned oldImage html' cloned')
  from 2(1) have ne: "cloned \<noteq> []"
    using indexOf_Nil[of "''<img''"] by auto
  have "0 \<le> indexOf cloned oldImage"
    unfolding 2(2) by (rule indexOf_getTextPart)
  with ne show ?case
    unfolding 2(4) by (auto simp: substr_def Let_def min_def max_def)
qed

declare changeImagesLoop.simps [simp del]

definition changeImages :: "config \<Rightarrow> string \<Rightarrow> string" where
  "changeImages cfg html = changeImagesLoop cfg html html"


subsection \<open>Cache storage, the network and the retry store\<close>

text \<open>
  A cache holds its entries in insertion order, one per request URL (the handled
  requests are GET requests): \<^verbatim>\<open>cache.put\<close> removes the entry of the same request and
  adds the new one last, \<^verbatim>\<open>cache.keys()\<close> lists the requests in insertion order,
  \<^verbatim>\<open>cache.delete\<close> removes the entry of a request.  The cache storage lists the caches
  by name in creation order; \<^verbatim>\<open>caches.open\<close> creates a cache that does not exist.
\<close>

type_synonym cache = "(string \<times> response) list"

definition cacheDelete :: "string \<Rightarrow> cache \<Rightarrow> cache" where
  "cacheDelete key c = filter (\<lambda>e. fst e \<noteq> key) c"

definition cachePut :: "string \<Rightarrow> response \<Rightarrow> cache \<Rightarrow> cache" where
  "cachePut key r c = cacheDelete key c @ [(key, r)]"

fun cacheMatch :: "cache \<Rightarrow> string \<Rightarrow> response option" where
  "cacheMatch [] key = None"
| "cacheMatch ((k, r) # c) key = (if k = key then Some r else cacheMatch c key)"

type_synonym cacheStorage = "(string \<times> cache) list"

fun cachesPut :: "string \<Rightarrow> string \<Rightarrow> response \<Rightarrow> cacheStorage \<Rightarrow> cacheStorage" where
  "cachesPut name key r [] = [(name, cachePut key r [])]"
| "cachesPut name key r ((n, c) # cs) =
     (if n = name then (n, cachePut key r c) # cs else (n, c) # cachesPut name key r cs)"

text \<open>\<^verbatim>\<open>caches.match(request)\<close>: the first match, searching the caches in creation order.\<close>

fun cachesMatch :: "cacheStorage \<Rightarrow> string \<Rightarrow> response option" where
  "cachesMatch [] key = None"
| "cachesMatch ((n, c) # cs) key =
     (case cacheMatch c key of Some r \<Rightarrow> Some r | None \<Rightarrow> cachesMatch cs key)"

fun cachesOpen :: "cacheStorage \<Rightarrow> string \<Rightarrow> cache" where
  "cachesOpen [] name = []"
| "cachesOpen ((n, c) # cs) name = (if n = name then c else cachesOpen cs name)"

text \<open>
  A record of the retry store: \<^verbatim>\<open>{ url, timestamp }\<close>, the URL being the key
  (\<^verbatim>\<open>keyPath: 'url'\<close>).
\<close>

record retryRecord =
  recordUrl :: string
  timestamp :: int

text \<open>
  The state the worker acts on: the cache storage, the requests it has sent to the
  network (in order), and the object store of the retry queue, which is \<open>None\<close> until
  \<^verbatim>\<open>openDatabase\<close> has succeeded.  The network is a function from the URL of a request
  to the response; \<open>None\<close> is a fetch that fails (the promise rejects).
\<close>

record world =
  caches :: cacheStorage
  fetched :: "string list"
  database :: "retryRecord list option"

type_synonym network = "string \<Rightarrow> response option"

text \<open>
  A promise that has settled: its value, or \<open>None\<close> when it has rejected, with the
  state it leaves.  \<open>thenP\<close> and \<open>catchP\<close> are \<^verbatim>\<open>.then(f)\<close> and \<^verbatim>\<open>.catch(h)\<close>.
\<close>

type_synonym 'a promise = "'a option \<times> world"

definition thenP :: "'a promise \<Rightarrow> ('a \<Rightarrow> world \<Rightarrow> 'b promise) \<Rightarrow> 'b promise" where
  "thenP p f = (case p of (Some x, w) \<Rightarrow> f x w | (None, w) \<Rightarrow> (None, w))"

definition catchP :: "'a promise \<Rightarrow> (world \<Rightarrow> 'a promise) \<Rightarrow> 'a promise" where
  "catchP p h = (case p of (Some x, w) \<Rightarrow> (Some x, w) | (None, w) \<Rightarrow> h w)"

text \<open>\<^verbatim>\<open>fetch(url)\<close>: the request goes to the network and is logged.\<close>

definition fetch :: "network \<Rightarrow> string \<Rightarrow> world \<Rightarrow> response promise" where
  "fetch net u w = (net u, w\<lparr>fetched := fetched w @ [u]\<rparr>)"


subsection \<open>The functions of the worker\<close>

text \<open>\<^verbatim>\<open>cacheName(key)\<close>.\<close>

definition cacheName :: "string \<Rightarrow> string" where
  "cacheName key = version @ '':sw-cache::'' @ key"

text \<open>
  \<^verbatim>\<open>addToCache(cacheKey, request, response)\<close>.  The write is not awaited by the caller;
  the state returned is the one after the write has been done.
\<close>

definition addToCache :: "config \<Rightarrow> string \<Rightarrow> string \<Rightarrow> response \<Rightarrow> world \<Rightarrow> response promise" where
  "addToCache cfg cacheKey requestUrl r w =
     (if ok r \<and> cacheEnabled cfg
      then (Some r, w\<lparr>caches := cachesPut cacheKey requestUrl r (caches w)\<rparr>)
      else (Some r, w))"

text \<open>\<^verbatim>\<open>deferImages(response)\<close> and \<^verbatim>\<open>deferYoutubeVideos(response)\<close>.\<close>

definition deferImages :: "config \<Rightarrow> response \<Rightarrow> response" where
  "deferImages cfg r = newResponse (changeImages cfg (body r)) (headers r)"

definition deferYoutubeVideos :: "config \<Rightarrow> response \<Rightarrow> response" where
  "deferYoutubeVideos cfg r =
     newResponse
       (if deferYoutubeEnabled cfg then replaceAll youtubeRe youtubeTemplate [] (body r)
        else body r)
       (headers r)"

text \<open>\<^verbatim>\<open>fetchFromCache(event)\<close>: rejects when no cache holds the request.\<close>

definition fetchFromCache :: "request \<Rightarrow> world \<Rightarrow> response promise" where
  "fetchFromCache req w = (cachesMatch (caches w) (url req), w)"

text \<open>The resource classes, and the classification at the head of \<^verbatim>\<open>doFetch\<close>.\<close>

datatype resourceType = Content | Image | Static

fun resourceName :: "resourceType \<Rightarrow> string" where
  "resourceName Content = ''content''"
| "resourceName Image = ''image''"
| "resourceName Static = ''static''"

definition classify :: "request \<Rightarrow> resourceType" where
  "classify req =
     (if - 1 \<noteq> indexOf (accept req) ''text/html'' then Content
      else if - 1 \<noteq> indexOf (accept req) ''image'' then Image
      else Static)"

text \<open>
  \<^verbatim>\<open>offlineResponse(resourceType)\<close>: the value may be \<^verbatim>\<open>undefined\<close>, which is \<open>None\<close>
  here.  An empty string is falsy, as a field that is not configured.
\<close>

definition offlineResponse :: "config \<Rightarrow> resourceType \<Rightarrow> world \<Rightarrow> response option" where
  "offlineResponse cfg resourceType w =
     (case offline cfg of
        None \<Rightarrow> None
      | Some off \<Rightarrow>
          (case resourceType of
             Image \<Rightarrow>
               (case image off of
                  Some svg \<Rightarrow>
                    if svg = [] then None
                    else Some (newResponse svg [(''Content-Type'', ''image/svg+xml'')])
                | None \<Rightarrow> None)
           | Content \<Rightarrow>
               (case page off of
                  Some p \<Rightarrow> if p = [] then None else cachesMatch (caches w) p
                | None \<Rightarrow> None)
           | Static \<Rightarrow> None))"

text \<open>
  \<^verbatim>\<open>doFetch(event)\<close>: the promise given to \<^verbatim>\<open>event.respondWith\<close>.  The value of the
  whole chain is a response or \<^verbatim>\<open>undefined\<close> (\<open>None\<close>): the last \<^verbatim>\<open>catch\<close> cannot
  reject.
\<close>

definition doFetch :: "config \<Rightarrow> network \<Rightarrow> request \<Rightarrow> world \<Rightarrow> response option \<times> world" where
  "doFetch cfg net req w =
     (let resourceType = classify req;
          cacheKey = cacheName (resourceName resourceType)
      in case resourceType of
           Content \<Rightarrow>
             (case catchP
                     (thenP (thenP (thenP (fetch net (url req) w)
                        (\<lambda>r w'. (Some (deferImages cfg r), w')))
                        (\<lambda>r w'. (Some (deferYoutubeVideos cfg r), w')))
                        (\<lambda>r w'. addToCache cfg cacheKey (url req) r w'))
                     (\<lambda>w'. fetchFromCache req w') of
                (Some r, w') \<Rightarrow> (Some r, w')
              | (None, w') \<Rightarrow> (offlineResponse cfg resourceType w', w'))
         | _ \<Rightarrow>
             (case thenP
                     (catchP (fetchFromCache req w) (\<lambda>w'. fetch net (url req) w'))
                     (\<lambda>r w'. addToCache cfg cacheKey (url req) r w') of
                (Some r, w') \<Rightarrow> (Some r, w')
              | (None, w') \<Rightarrow> (offlineResponse cfg resourceType w', w')))"

text \<open>
  \<^verbatim>\<open>prefetch(urls)\<close>: every URL is fetched and, when the fetch succeeds, handed to
  \<^verbatim>\<open>addToCache\<close> under the \<^verbatim>\<open>content\<close> cache.
\<close>

fun prefetchEach :: "config \<Rightarrow> network \<Rightarrow> string list \<Rightarrow> world \<Rightarrow> world" where
  "prefetchEach cfg net [] w = w"
| "prefetchEach cfg net (u # us) w =
     prefetchEach cfg net us
       (snd (thenP (fetch net u w) (\<lambda>r w'. addToCache cfg (cacheName ''content'') u r w')))"

definition prefetch :: "config \<Rightarrow> network \<Rightarrow> string list \<Rightarrow> world \<Rightarrow> world" where
  "prefetch cfg net urls w = (if \<not> prefetchEnabled cfg then w else prefetchEach cfg net urls w)"

text \<open>
  \<^verbatim>\<open>shouldHandleFetch(event)\<close>.  \<open>selfOrigin\<close> is \<^verbatim>\<open>self.location.origin\<close>.  The two
  configured criteria are only among the criteria when they are configured.  A URL
  that does not parse makes the handler throw, and the request is not handled.
\<close>

definition shouldHandleFetch :: "config \<Rightarrow> string \<Rightarrow> request \<Rightarrow> bool" where
  "shouldHandleFetch cfg selfOrigin req =
     (case parseURL (url req) of
        None \<Rightarrow> False
      | Some (origin, pathname) \<Rightarrow>
          (let criteria =
                 [''sw.min.js'' \<noteq> pathname,
                  ''GET'' = httpMethod req,
                  origin = selfOrigin]
                 @ (case noCachePatterns cfg of
                      Some patterns \<Rightarrow> [\<not> list_ex (\<lambda>pattern. pattern pathname) patterns]
                    | None \<Rightarrow> [])
                 @ (case noCacheItems cfg of
                      Some items \<Rightarrow> [pathname \<notin> set items]
                    | None \<Rightarrow> []);
               failingCriteria = filter (\<lambda>criterion. \<not> criterion) criteria
           in failingCriteria = []))"

text \<open>
  \<^verbatim>\<open>trimCache(cacheName)\<close>, on the entries of one cache.  \<open>None\<close> is the chain that
  never settles: with a limit below zero the loop goes on deleting \<^verbatim>\<open>keys[0]\<close> of the
  empty cache.
\<close>

function trimCache :: "int \<Rightarrow> cache \<Rightarrow> cache option" where
  "trimCache limit c =
     (if int (length c) \<le> limit then Some c
      else (case c of
              [] \<Rightarrow> None
            | (key, r) # rest \<Rightarrow> trimCache limit (cacheDelete key c)))"
  by pat_completeness auto
termination
  by (relation "measure (\<lambda>(limit, c). length c)")
     (auto simp: cacheDelete_def less_Suc_eq_le)

declare trimCache.simps [simp del]

text \<open>
  \<^verbatim>\<open>trimCaches()\<close>: one chain per cache; the result gives, for each cache, the entries
  it ends with, or \<open>None\<close> when its chain never settles.
\<close>

definition trimCaches :: "config \<Rightarrow> cacheStorage \<Rightarrow> (string \<times> cache option) list" where
  "trimCaches cfg cs =
     (case maxItems cfg of
        None \<Rightarrow> map (\<lambda>(n, c). (n, Some c)) cs
      | Some limit \<Rightarrow>
          if \<not> cacheEnabled cfg \<or> limit = 0 then map (\<lambda>(n, c). (n, Some c)) cs
          else map (\<lambda>(n, c). (n, trimCache limit c)) cs)"

text \<open>
  \<^verbatim>\<open>store(error, url)\<close>: \<^verbatim>\<open>IDBObjectStore.add\<close> does not replace a record whose key
  is in the store already.  Without a database the call throws and stores nothing.
\<close>

definition store :: "int \<Rightarrow> string \<Rightarrow> world \<Rightarrow> world" where
  "store now u w =
     (case database w of
        None \<Rightarrow> w
      | Some db \<Rightarrow>
          if u \<in> recordUrl ` set db then w
          else w\<lparr>database := Some (db @ [\<lparr>recordUrl = u, timestamp = now\<rparr>])\<rparr>)"

definition storeDelete :: "string \<Rightarrow> world \<Rightarrow> world" where
  "storeDelete u w =
     (case database w of
        None \<Rightarrow> w
      | Some db \<Rightarrow> w\<lparr>database := Some (filter (\<lambda>r. recordUrl r \<noteq> u) db)\<rparr>)"

text \<open>
  \<^verbatim>\<open>retryAnalyticsRequests()\<close>.  \<open>replayRecord\<close> is the body of the \<^verbatim>\<open>forEach\<close> with
  the continuation of its fetch; \<open>now\<close> is \<^verbatim>\<open>Date.now()\<close>.  A comparison with a
  \<^verbatim>\<open>maxTime\<close> that is not configured is false.
\<close>

definition replayRecord :: "config \<Rightarrow> int \<Rightarrow> network \<Rightarrow> retryRecord \<Rightarrow> world \<Rightarrow> world" where
  "replayRecord cfg now net request w =
     (let queueTime = now - timestamp request
      in if (case analyticsMaxTime cfg of Some maxTime \<Rightarrow> queueTime > maxTime | None \<Rightarrow> False)
         then storeDelete (recordUrl request) w
         else (let requestUrl = recordUrl request @ ''&qt='' @ numberToString queueTime
               in case fetch net requestUrl w of
                    (None, w') \<Rightarrow> w'
                  | (Some r, w') \<Rightarrow>
                      if 400 \<le> status r then w' else storeDelete (recordUrl request) w'))"

definition retryAnalyticsRequests :: "config \<Rightarrow> int \<Rightarrow> network \<Rightarrow> world \<Rightarrow> world" where
  "retryAnalyticsRequests cfg now net w =
     (case database w of
        None \<Rightarrow> w
      | Some db \<Rightarrow> fold (replayRecord cfg now net) db w)"

text \<open>
  Words for the statements about the replay: the age of a record, whether the replay
  drops it unsent, the URL of the request the replay sends for it, and whether that
  request is answered with a status below 400.
\<close>

definition queueTime :: "int \<Rightarrow> retryRecord \<Rightarrow> int" where
  "queueTime now request = now - timestamp request"

definition expired :: "config \<Rightarrow> int \<Rightarrow> retryRecord \<Rightarrow> bool" where
  "expired cfg now request =
     (case analyticsMaxTime cfg of
        Some maxTime \<Rightarrow> queueTime now request > maxTime
      | None \<Rightarrow> False)"

definition replayUrl :: "int \<Rightarrow> retryRecord \<Rightarrow> string" where
  "replayUrl now request = recordUrl request @ ''&qt='' @ numberToString (queueTime now request)"

definition delivered :: "int \<Rightarrow> network \<Rightarrow> retryRecord \<Rightarrow> bool" where
  "delivered now net request =
     (case net (replayUrl now request) of
        Some r \<Rightarrow> status r < 400
      | None \<Rightarrow> False)"

definition dropped :: "config \<Rightarrow> int \<Rightarrow> network \<Rightarrow> retryRecord \<Rightarrow> bool" where
  "dropped cfg now net request = (expired cfg now request \<or> delivered now net request)"

text \<open>The responses held by the caches of a cache storage.\<close>

definition storedResponses :: "cacheStorage \<Rightarrow> response set" where
  "storedResponses cs = (\<Union>nc \<in> set cs. snd ` set (snd nc))"

text \<open>The configuration \<^verbatim>\<open>sw.js\<close> starts with.\<close>

definition initialConfig :: config where
  "initialConfig =
     \<lparr>cacheEnabled = True, maxItems = None, noCachePatterns = None, noCacheItems = None,
      prefetchEnabled = True, offline = None, deferImagesColor = ''#D8D8D8'',
      deferYoutubeEnabled = True, analyticsMaxTime = Some (24 * 60 * 60 * 1000)\<rparr>"

text \<open>The element of the round trip, and what the image pass makes of it.\<close>

definition example :: string where
  "example = ''<img data-defer src=\"a.png\" width=\"10\" height=\"10\">''"

definition deferred :: "config \<Rightarrow> string" where
  "deferred cfg = ''<img data-defer src=\"'' @ newBase64Image cfg ''10'' ''10''
       @ ''\" data-defer-src=\"a.png\" width=\"10\" height=\"10\">''"



section \<open>Properties of the deep merge\<close>

lemma getProp_assign: "getProp (assign k v t) k' = (if k' = k then v else getProp t k')"
  by (induction t) auto

lemma assign_assign: "assign k v (assign k w t) = assign k v t"
  by (induction t) auto

lemma assign_same: "k \<in> fst ` set t \<Longrightarrow> assign k (getProp t k) t = t"
  by (induction t) force+

lemma map_fst_assign:
  "map fst (assign k v t) = (if k \<in> set (map fst t) then map fst t else map fst t @ [k])"
  by (induction k v t rule: assign.induct) auto

lemma keys_assign: "fst ` set (assign k v t) = insert k (fst ` set t)"
  using arg_cong[OF map_fst_assign[of k v t], of set] by (auto split: if_splits)

lemma mergeKeys_Cons:
  "mergeKeys t ((k, v) # rest) = mergeKeys (assign k (mergedValue v (getProp t k)) t) rest"
  by (simp add: mergedValue_def Let_def getProp_assign assign_assign)

lemma keys_mergeKeys: "fst ` set (mergeKeys t s) = fst ` set t \<union> fst ` set s"
proof (induction s arbitrary: t)
  case Nil
  then show ?case by simp
next
  case (Cons kv s)
  obtain k v where kv: "kv = (k, v)" by (cases kv)
  show ?case
    unfolding kv mergeKeys_Cons Cons.IH keys_assign by auto
qed

lemma getProp_mergeKeys_other:
  "k \<notin> fst ` set s \<Longrightarrow> getProp (mergeKeys t s) k = getProp t k"
proof (induction s arbitrary: t)
  case Nil
  then show ?case by simp
next
  case (Cons kv s)
  obtain k' v where kv: "kv = (k', v)" by (cases kv)
  from Cons.prems have "k \<noteq> k'" "k \<notin> fst ` set s" by (auto simp: kv)
  then show ?case
    unfolding kv mergeKeys_Cons by (simp add: Cons.IH getProp_assign)
qed

lemma getProp_mergeKeys_key:
  "distinct (map fst s) \<Longrightarrow> (k, v) \<in> set s \<Longrightarrow>
   getProp (mergeKeys t s) k = mergedValue v (getProp t k)"
proof (induction s arbitrary: t)
  case Nil
  then show ?case by simp
next
  case (Cons kv s)
  obtain k' v' where kv: "kv = (k', v')" by (cases kv)
  show ?case
  proof (cases "(k, v) = (k', v')")
    case True
    with Cons.prems have "k \<notin> fst ` set s" by (auto simp: kv)
    with True show ?thesis
      unfolding kv mergeKeys_Cons by (simp add: getProp_mergeKeys_other getProp_assign)
  next
    case False
    with Cons.prems have in_s: "(k, v) \<in> set s" and d: "distinct (map fst s)"
      by (auto simp: kv)
    with Cons.prems have "k \<noteq> k'" by (force simp: kv)
    with in_s d show ?thesis
      unfolding kv mergeKeys_Cons by (simp add: Cons.IH getProp_assign)
  qed
qed

lemma mergeKeys_absorbed:
  "(\<And>k v. (k, v) \<in> set s \<Longrightarrow> k \<in> fst ` set t \<and> mergedValue v (getProp t k) = getProp t k)
   \<Longrightarrow> mergeKeys t s = t"
proof (induction s)
  case Nil
  then show ?case by simp
next
  case (Cons kv s)
  obtain k v where kv: "kv = (k, v)" by (cases kv)
  from Cons.prems[of k v] have "assign k (mergedValue v (getProp t k)) t = t"
    by (simp add: kv assign_same)
  moreover have "mergeKeys t s = t"
    by (rule Cons.IH) (use Cons.prems in \<open>auto simp: kv\<close>)
  ultimately show ?case
    unfolding kv mergeKeys_Cons by simp
qed

lemma truthy_mergeDeep: "truthy t \<Longrightarrow> truthy (mergeDeep t s)"
  by (cases s; cases t) auto

text \<open>
  Claim C7.  For every target (the default configuration, or any other value) and
  every override, merging the same override a second time changes nothing:
  \<^verbatim>\<open>mergeDeep(mergeDeep(defaults, override), override)\<close> equals
  \<^verbatim>\<open>mergeDeep(defaults, override)\<close>.  The override is a JavaScript value, so the keys
  of each of its objects are distinct.
\<close>

theorem mergeDeep_idempotent:
  "wellFormed override \<Longrightarrow>
   mergeDeep (mergeDeep defaults override) override = mergeDeep defaults override"
proof (induction override arbitrary: defaults)
  case (JObj src)
  have vals: "mergedValue v (mergedValue v x) = mergedValue v x" if kv: "(k, v) \<in> set src" for k v x
  proof -
    from kv JObj.prems have wf: "wellFormed v" by auto
    have ih: "\<And>t. mergeDeep (mergeDeep t v) v = mergeDeep t v"
      using JObj.IH[of "(k, v)" v] kv wf by simp
    show ?thesis
      by (simp add: mergedValue_def ih truthy_mergeDeep)
  qed
  from JObj.prems have d: "distinct (map fst src)" by simp
  show ?case
  proof (cases defaults)
    case (JObj tgt)
    have "mergeKeys (mergeKeys tgt src) src = mergeKeys tgt src"
    proof (rule mergeKeys_absorbed)
      fix k v
      assume kv: "(k, v) \<in> set src"
      then have "k \<in> fst ` set (mergeKeys tgt src)"
        by (force simp: keys_mergeKeys)
      moreover have "mergedValue v (getProp (mergeKeys tgt src) k) = getProp (mergeKeys tgt src) k"
        by (simp add: getProp_mergeKeys_key[OF d kv] vals[OF kv])
      ultimately show "k \<in> fst ` set (mergeKeys tgt src) \<and>
          mergedValue v (getProp (mergeKeys tgt src) k) = getProp (mergeKeys tgt src) k"
        by simp
    qed
    with JObj show ?thesis by simp
  qed simp_all
qed simp_all

theorem mergeDeep_idempotent_witness:
  "wellFormed (JObj [(''cache'', JObj [(''enabled'', JBool False), (''maxItems'', JNum 40)]),
                     (''offline'', JObj [(''page'', JStr ''/offline.html'')])])
   \<and> mergeDeep
        (mergeDeep defaultConfig
           (JObj [(''cache'', JObj [(''enabled'', JBool False), (''maxItems'', JNum 40)]),
                  (''offline'', JObj [(''page'', JStr ''/offline.html'')])]))
        (JObj [(''cache'', JObj [(''enabled'', JBool False), (''maxItems'', JNum 40)]),
               (''offline'', JObj [(''page'', JStr ''/offline.html'')])])
     = JObj [(''cache'', JObj [(''enabled'', JBool False), (''maxItems'', JNum 40)]),
             (''prefetch'', JObj [(''enabled'', JBool True)]),
             (''defer'', JObj [(''images'', JObj [(''color'', JStr ''#D8D8D8'')]),
                              (''youtube'', JObj [(''enabled'', JBool True)])]),
             (''analytics'', JObj [(''enabled'', JBool True), (''maxTime'', JNum 86400000)]),
             (''offline'', JObj [(''page'', JStr ''/offline.html'')])]"
proof -
  have wf: "wellFormed (JObj [(''cache'', JObj [(''enabled'', JBool False), (''maxItems'', JNum 40)]),
                     (''offline'', JObj [(''page'', JStr ''/offline.html'')])])"
    by simp
  have once: "mergeDeep defaultConfig
           (JObj [(''cache'', JObj [(''enabled'', JBool False), (''maxItems'', JNum 40)]),
                  (''offline'', JObj [(''page'', JStr ''/offline.html'')])])
     = JObj [(''cache'', JObj [(''enabled'', JBool False), (''maxItems'', JNum 40)]),
             (''prefetch'', JObj [(''enabled'', JBool True)]),
             (''defer'', JObj [(''images'', JObj [(''color'', JStr ''#D8D8D8'')]),
                              (''youtube'', JObj [(''enabled'', JBool True)])]),
             (''analytics'', JObj [(''enabled'', JBool True), (''maxTime'', JNum 86400000)]),
             (''offline'', JObj [(''page'', JStr ''/offline.html'')])]"
    by (simp add: defaultConfig_def)
  show ?thesis
    using wf once mergeDeep_idempotent[OF wf, of defaultConfig] by simp
qed

text \<open>
  Claim C8.  The claim says that an override value replaces the base value outright
  whenever the two are not both plain objects, also when the base value is a scalar
  and the override value is an object.  \<^verbatim>\<open>mergeDeep\<close> tests only the override value:
  when it is an object and the base value is truthy but no object (a non-zero number,
  a non-empty string, \<^verbatim>\<open>true\<close>, an array), the recursive call returns at once and the
  base value stays; the override is dropped.  A falsy base value (\<^verbatim>\<open>0\<close>, absent) is
  replaced, as the claim says.  The last equation is the default configuration with
  the override \<^verbatim>\<open>{ defer: { images: { color: { light: '#FFF' } } } }\<close>.
\<close>

theorem mergeDeep_keeps_truthy_scalar:
  "mergeDeep (JObj [(''a'', JNum 5)]) (JObj [(''a'', JObj [(''b'', JNum 1)])])
     = JObj [(''a'', JNum 5)]
   \<and> mergeDeep (JObj [(''a'', JArr [JNum 1])]) (JObj [(''a'', JObj [(''b'', JNum 1)])])
     = JObj [(''a'', JArr [JNum 1])]
   \<and> mergeDeep (JObj [(''a'', JNum 0)]) (JObj [(''a'', JObj [(''b'', JNum 1)])])
     = JObj [(''a'', JObj [(''b'', JNum 1)])]
   \<and> mergeDeep (JObj []) (JObj [(''a'', JObj [(''b'', JNum 1)])])
     = JObj [(''a'', JObj [(''b'', JNum 1)])]
   \<and> mergeDeep defaultConfig
        (JObj [(''defer'', JObj [(''images'', JObj [(''color'', JObj [(''light'', JStr ''#FFF'')])])])])
     = defaultConfig"
  by (simp add: defaultConfig_def)


section \<open>Trimming a cache\<close>

lemma cacheDelete_fresh: "key \<notin> fst ` set c \<Longrightarrow> cacheDelete key c = c"
  by (induction c) (auto simp: cacheDelete_def)

text \<open>Puts of pairwise distinct requests fill a cache in the order of the puts.\<close>

lemma fold_cachePut_distinct:
  "distinct (map fst (c @ entries)) \<Longrightarrow>
   fold (\<lambda>(key, r). cachePut key r) entries c = c @ entries"
proof (induction entries arbitrary: c)
  case Nil
  then show ?case by simp
next
  case (Cons e entries)
  obtain key r where e: "e = (key, r)" by (cases e)
  from Cons.prems have fresh: "key \<notin> fst ` set c"
    and d: "distinct (map fst ((c @ [(key, r)]) @ entries))"
    by (auto simp: e)
  show ?case
    using Cons.IH[OF d] by (simp add: e cachePut_def cacheDelete_fresh[OF fresh])
qed

lemma trimCache_within: "int (length c) \<le> limit \<Longrightarrow> trimCache limit c = Some c"
  by (simp add: trimCache.simps)

lemma trimCache_over:
  "\<not> int (length ((key, r) # rest)) \<le> limit \<Longrightarrow>
   trimCache limit ((key, r) # rest) = trimCache limit (cacheDelete key ((key, r) # rest))"
  by (subst trimCache.simps) simp

text \<open>
  The loop of \<^verbatim>\<open>trimCache\<close>, whatever the number of entries: with a limit that is not
  negative, the chain settles and the cache keeps the entries put last, as many as the
  limit allows, in their order.
\<close>

lemma trimCache_keeps_last:
  "distinct (map fst c) \<Longrightarrow> 0 \<le> limit \<Longrightarrow>
   trimCache limit c = Some (drop (length c - nat limit) c)"
proof (induction c)
  case Nil
  then show ?case by (simp add: trimCache_within)
next
  case (Cons e rest)
  obtain key r where e: "e = (key, r)" by (cases e)
  show ?case
  proof (cases "int (length (e # rest)) \<le> limit")
    case True
    then have "length (e # rest) - nat limit = 0" by simp
    with True show ?thesis
      using trimCache_within[of "e # rest" limit] by simp
  next
    case False
    from Cons.prems have fresh: "key \<notin> fst ` set rest" and d: "distinct (map fst rest)"
      by (auto simp: e)
    have del: "cacheDelete key ((key, r) # rest) = rest"
      using cacheDelete_fresh[OF fresh] by (simp add: cacheDelete_def)
    have "trimCache limit (e # rest) = trimCache limit rest"
      using trimCache_over[of key r rest limit] False del by (simp add: e)
    also have "\<dots> = Some (drop (length rest - nat limit) rest)"
      using Cons.IH[OF d Cons.prems(2)] .
    also have "drop (length rest - nat limit) rest = drop (length (e # rest) - nat limit) (e # rest)"
    proof -
      from False Cons.prems(2) have "nat limit \<le> length rest" by simp
      then have "length (e # rest) - nat limit = Suc (length rest - nat limit)" by simp
      then show ?thesis by simp
    qed
    finally show ?thesis .
  qed
qed

text \<open>What the guard of \<^verbatim>\<open>trimCaches\<close> decides.\<close>

lemma trimCaches_guard:
  "\<not> cacheEnabled cfg \<or> maxItems cfg = None \<or> maxItems cfg = Some 0 \<Longrightarrow>
   trimCaches cfg storage = map (\<lambda>(n, c). (n, Some c)) storage"
  by (auto simp: trimCaches_def split: option.splits)

lemma trimCaches_trims:
  "cacheEnabled cfg \<Longrightarrow> maxItems cfg = Some limit \<Longrightarrow> limit \<noteq> 0 \<Longrightarrow>
   trimCaches cfg storage = map (\<lambda>(n, c). (n, trimCache limit c)) storage"
  by (simp add: trimCaches_def)

text \<open>
  Claim C5, as stated, fails where \<^verbatim>\<open>trimCaches\<close> does not trim: the guard
  \<^verbatim>\<open>!config.cache.enabled || !config.cache.maxItems\<close> returns at once when
  \<^verbatim>\<open>maxItems\<close> is \<open>0\<close> (a falsy number, as a limit that is not configured) and when
  caching is disabled.  With \<^verbatim>\<open>cache.maxItems = 0\<close> and one entry put into the
  \<^verbatim>\<open>image\<close> cache, the cache still holds that one entry after \<^verbatim>\<open>trimCaches\<close>, not
  \<open>0\<close> entries; with caching disabled, \<^verbatim>\<open>cache.maxItems = 1\<close> and two entries, it
  still holds the two.
\<close>

theorem trimCaches_guard_keeps_entries:
  "maxItems (initialConfig\<lparr>maxItems := Some 0\<rparr>) = Some 0
   \<and> trimCaches (initialConfig\<lparr>maxItems := Some 0\<rparr>)
        [(cacheName ''image'',
          fold (\<lambda>(key, r). cachePut key r) [(''/a.png'', newResponse ''a'' [])] [])]
      = [(cacheName ''image'', Some [(''/a.png'', newResponse ''a'' [])])]
   \<and> maxItems (initialConfig\<lparr>cacheEnabled := False, maxItems := Some 1\<rparr>) = Some 1
   \<and> trimCaches (initialConfig\<lparr>cacheEnabled := False, maxItems := Some 1\<rparr>)
        [(cacheName ''image'',
          fold (\<lambda>(key, r). cachePut key r)
            [(''/a.png'', newResponse ''a'' []), (''/b.png'', newResponse ''b'' [])] [])]
      = [(cacheName ''image'',
          Some [(''/a.png'', newResponse ''a'' []), (''/b.png'', newResponse ''b'' [])])]"
  by (simp add: trimCaches_def initialConfig_def cachePut_def cacheDelete_def)

text \<open>
  Claim C5, amended.  A cache that was filled by puts of distinct requests holds, after
  \<^verbatim>\<open>trimCache\<close> has run on it with \<^verbatim>\<open>cache.maxItems = N\<close>, the \<open>N\<close> entries put last (all
  of them when there are no more than \<open>N\<close>), in their order: the loop deletes the
  earliest key, one at a time, until the limit holds.  In particular, after \<open>N + 1\<close>
  puts the cache holds exactly \<open>N\<close> entries and the entry put first is the one removed.
  \<^verbatim>\<open>trimCaches\<close> runs \<^verbatim>\<open>trimCache\<close> on every cache when caching is enabled and
  \<^verbatim>\<open>maxItems\<close> is not \<open>0\<close>; it leaves every cache as it is when caching is disabled or
  \<^verbatim>\<open>maxItems\<close> is \<open>0\<close> or absent.
\<close>

theorem trimCaches_evicts_oldest:
  assumes "distinct (map fst entries)" and "0 \<le> limit"
  shows "trimCache limit (fold (\<lambda>(key, r). cachePut key r) entries [])
           = Some (drop (length entries - nat limit) entries)
     \<and> (length entries = Suc (nat limit) \<longrightarrow>
          trimCache limit (fold (\<lambda>(key, r). cachePut key r) entries []) = Some (tl entries)
          \<and> length (tl entries) = nat limit)
     \<and> (cacheEnabled cfg \<and> maxItems cfg = Some limit \<and> limit \<noteq> 0 \<longrightarrow>
          trimCaches cfg storage = map (\<lambda>(n, c). (n, trimCache limit c)) storage
          \<and> ((name, fold (\<lambda>(key, r). cachePut key r) entries []) \<in> set storage \<longrightarrow>
               (name, Some (drop (length entries - nat limit) entries))
                 \<in> set (trimCaches cfg storage)))
     \<and> (\<not> cacheEnabled cfg \<or> maxItems cfg = None \<or> maxItems cfg = Some 0 \<longrightarrow>
          trimCaches cfg storage = map (\<lambda>(n, c). (n, Some c)) storage)"
proof -
  have built: "fold (\<lambda>(key, r). cachePut key r) entries [] = entries"
    using fold_cachePut_distinct[of "[]" entries] assms(1) by simp
  have trimmed: "trimCache limit entries = Some (drop (length entries - nat limit) entries)"
    using assms by (rule trimCache_keeps_last)
  have one: "trimCache limit entries = Some (tl entries) \<and> length (tl entries) = nat limit"
    if "length entries = Suc (nat limit)"
    using trimmed that by (simp add: drop_Suc)
  have all: "trimCaches cfg storage = map (\<lambda>(n, c). (n, trimCache limit c)) storage"
    if "cacheEnabled cfg" and "maxItems cfg = Some limit" and "limit \<noteq> 0"
    using that by (rule trimCaches_trims)
  have mem: "(name, Some (drop (length entries - nat limit) entries)) \<in> set (trimCaches cfg storage)"
    if "cacheEnabled cfg" and "maxItems cfg = Some limit" and "limit \<noteq> 0"
      and "(name, entries) \<in> set storage"
    using all[OF that(1-3)] that(4) trimmed by force
  have none: "trimCaches cfg storage = map (\<lambda>(n, c). (n, Some c)) storage"
    if "\<not> cacheEnabled cfg \<or> maxItems cfg = None \<or> maxItems cfg = Some 0"
    using that by (rule trimCaches_guard)
  show ?thesis
    using trimmed one all mem none by (simp add: built)
qed

theorem trimCaches_evicts_oldest_witness:
  "distinct (map fst [(''/a.png'', newResponse ''a'' []), (''/b.png'', newResponse ''b'' []),
                      (''/c.png'', newResponse ''c'' []), (''/d.png'', newResponse ''d'' [])])
   \<and> cacheEnabled (initialConfig\<lparr>maxItems := Some 2\<rparr>)
   \<and> maxItems (initialConfig\<lparr>maxItems := Some 2\<rparr>) = Some 2
   \<and> trimCaches (initialConfig\<lparr>maxItems := Some 2\<rparr>)
        [(cacheName ''content'', []),
         (cacheName ''image'',
          fold (\<lambda>(key, r). cachePut key r)
            [(''/a.png'', newResponse ''a'' []), (''/b.png'', newResponse ''b'' []),
             (''/c.png'', newResponse ''c'' []), (''/d.png'', newResponse ''d'' [])] [])]
      = [(cacheName ''content'', Some []),
         (cacheName ''image'',
          Some [(''/c.png'', newResponse ''c'' []), (''/d.png'', newResponse ''d'' [])])]
   \<and> trimCache 2
        (fold (\<lambda>(key, r). cachePut key r)
           [(''/b.png'', newResponse ''b'' []), (''/c.png'', newResponse ''c'' []),
            (''/d.png'', newResponse ''d'' [])] [])
      = Some [(''/c.png'', newResponse ''c'' []), (''/d.png'', newResponse ''d'' [])]
   \<and> maxItems initialConfig = None
   \<and> trimCaches initialConfig
        [(cacheName ''image'', [(''/a.png'', newResponse ''a'' []), (''/b.png'', newResponse ''b'' [])])]
      = [(cacheName ''image'',
          Some [(''/a.png'', newResponse ''a'' []), (''/b.png'', newResponse ''b'' [])])]"
proof -
  let ?cfg = "initialConfig\<lparr>maxItems := Some 2\<rparr>"
  let ?four = "[(''/a.png'', newResponse ''a'' []), (''/b.png'', newResponse ''b'' []),
                (''/c.png'', newResponse ''c'' []), (''/d.png'', newResponse ''d'' [])]"
  let ?three = "[(''/b.png'', newResponse ''b'' []), (''/c.png'', newResponse ''c'' []),
                 (''/d.png'', newResponse ''d'' [])]"
  let ?storage = "[(cacheName ''content'', []),
                   (cacheName ''image'', fold (\<lambda>(key, r). cachePut key r) ?four [])]"
  let ?two = "[(cacheName ''image'',
                [(''/a.png'', newResponse ''a'' []), (''/b.png'', newResponse ''b'' [])])]"
  have d4: "distinct (map fst ?four)" by simp
  have d3: "distinct (map fst ?three)" by simp
  have d0: "distinct (map fst ([] :: cache))" by simp
  have l: "(0::int) \<le> 2" by simp
  have en: "cacheEnabled ?cfg" and mx: "maxItems ?cfg = Some 2"
    by (simp_all add: initialConfig_def)
  have absent: "maxItems initialConfig = None"
    by (simp add: initialConfig_def)
  have t4: "trimCache 2 (fold (\<lambda>(key, r). cachePut key r) ?four [])
      = Some [(''/c.png'', newResponse ''c'' []), (''/d.png'', newResponse ''d'' [])]"
    using trimCaches_evicts_oldest[OF d4 l] by simp
  have t0: "trimCache 2 [] = Some []"
    using trimCaches_evicts_oldest[OF d0 l] by simp
  have t3: "trimCache 2 (fold (\<lambda>(key, r). cachePut key r) ?three [])
      = Some [(''/c.png'', newResponse ''c'' []), (''/d.png'', newResponse ''d'' [])]"
    using trimCaches_evicts_oldest[OF d3 l] by simp
  have run: "trimCaches ?cfg ?storage = map (\<lambda>(n, c). (n, trimCache 2 c)) ?storage"
    using trimCaches_evicts_oldest[OF d4 l, of ?cfg ?storage] en mx by simp
  have idle: "trimCaches initialConfig ?two = map (\<lambda>(n, c). (n, Some c)) ?two"
    using trimCaches_evicts_oldest[OF d4 l, of initialConfig ?two] absent by simp
  have trimmed: "trimCaches ?cfg ?storage
      = [(cacheName ''content'', Some []),
         (cacheName ''image'',
          Some [(''/c.png'', newResponse ''c'' []), (''/d.png'', newResponse ''d'' [])])]"
    unfolding run using t4 t0 by simp
  have kept: "trimCaches initialConfig ?two
      = [(cacheName ''image'',
          Some [(''/a.png'', newResponse ''a'' []), (''/b.png'', newResponse ''b'' [])])]"
    unfolding idle by simp
  from d4 en mx trimmed t3 absent kept show ?thesis
    by (intro conjI)
qed


section \<open>Replaying the retry queue\<close>

text \<open>The store holds one record per URL: \<^verbatim>\<open>store\<close> and the deletions keep it so.\<close>

lemma store_distinct:
  assumes "database w = Some db" and "distinct (map recordUrl db)"
  shows "\<exists>db'. database (store now u w) = Some db' \<and> distinct (map recordUrl db')"
  using assms by (auto simp: store_def)

lemma storeDelete_distinct:
  assumes "database w = Some db" and "distinct (map recordUrl db)"
  shows "\<exists>db'. database (storeDelete u w) = Some db' \<and> distinct (map recordUrl db')"
  using assms by (auto simp: storeDelete_def distinct_map_filter)

lemma replayRecord_step:
  assumes "database w = Some db"
  shows "replayRecord cfg now net request w =
     w\<lparr>fetched := fetched w @ (if expired cfg now request then [] else [replayUrl now request]),
       database := Some (if dropped cfg now net request
                         then filter (\<lambda>r. recordUrl r \<noteq> recordUrl request) db else db)\<rparr>"
  using assms
  by (auto simp: replayRecord_def expired_def queueTime_def replayUrl_def delivered_def
      dropped_def fetch_def storeDelete_def Let_def split: option.splits)

lemma fold_replayRecord:
  assumes "database w = Some db"
  shows "fold (replayRecord cfg now net) rs w =
     w\<lparr>fetched := fetched w @ map (replayUrl now) (filter (\<lambda>r. \<not> expired cfg now r) rs),
       database := Some (filter
         (\<lambda>x. recordUrl x \<notin> recordUrl ` {r \<in> set rs. dropped cfg now net r}) db)\<rparr>"
  using assms
proof (induction rs arbitrary: w db)
  case Nil
  then show ?case by simp
next
  case (Cons r rs)
  let ?w = "replayRecord cfg now net r w"
  let ?db = "if dropped cfg now net r then filter (\<lambda>x. recordUrl x \<noteq> recordUrl r) db else db"
  have step: "?w = w\<lparr>fetched := fetched w @ (if expired cfg now r then [] else [replayUrl now r]),
       database := Some ?db\<rparr>"
    using replayRecord_step[OF Cons.prems] .
  then have db': "database ?w = Some ?db" by simp
  have "filter (\<lambda>x. recordUrl x \<notin> recordUrl ` {r \<in> set rs. dropped cfg now net r}) ?db
      = filter (\<lambda>x. recordUrl x \<notin> recordUrl ` {r' \<in> set (r # rs). dropped cfg now net r'}) db"
    by (auto intro!: filter_cong)
  then show ?case
    using Cons.IH[OF db'] step by simp
qed

text \<open>
  Claim C4, as stated, fails at the boundary: the code drops a record unsent when
  \<^verbatim>\<open>queueTime > config.analytics.maxTime\<close>, so a record whose age equals \<^verbatim>\<open>maxTime\<close>
  is replayed.  With the default \<^verbatim>\<open>maxTime\<close> of 86400000 ms, a record stored at time
  \<open>0\<close> and a replay at time \<open>86400000\<close> over a network that fails, a request with
  \<^verbatim>\<open>&qt=86400000\<close> is sent and the record stays in the store.
\<close>

theorem replay_at_maxTime_sends_request:
  "analyticsMaxTime initialConfig = Some 86400000
   \<and> queueTime 86400000
        \<lparr>recordUrl = ''https://www.google-analytics.com/collect?v=1'', timestamp = 0\<rparr>
      = 86400000
   \<and> retryAnalyticsRequests initialConfig 86400000 (\<lambda>u. None)
        \<lparr>caches = [], fetched = [],
         database = Some [\<lparr>recordUrl = ''https://www.google-analytics.com/collect?v=1'',
                           timestamp = 0\<rparr>]\<rparr>
      = \<lparr>caches = [],
         fetched = [''https://www.google-analytics.com/collect?v=1&qt=86400000''],
         database = Some [\<lparr>recordUrl = ''https://www.google-analytics.com/collect?v=1'',
                           timestamp = 0\<rparr>]\<rparr>"
proof -
  have "numberToString 86400000 = ''86400000''"
    by (simp add: numberToString_def natToString.simps digitChar_def)
  then show ?thesis
    by (simp add: retryAnalyticsRequests_def replayRecord_def initialConfig_def fetch_def
        queueTime_def)
qed

text \<open>
  Claim C4, amended.  The store holds one record per URL.  On replay, a record whose
  age is greater than \<^verbatim>\<open>analytics.maxTime\<close> is deleted and no request is sent for it.
  For every other record (age at most \<^verbatim>\<open>maxTime\<close>) one request is sent, to the
  record's URL followed by \<^verbatim>\<open>&qt=\<close> and the age, and the record is deleted exactly
  when the response has a status below 400; it stays when the fetch fails or the
  status is 400 or more.  So the requests sent are those of the records that have not
  expired, in order, and the records left are those that have not expired and were
  not answered with a status below 400.
\<close>

theorem retryAnalyticsRequests_replay:
  assumes "database w = Some db" and "distinct (map recordUrl db)"
  shows "retryAnalyticsRequests cfg now net w =
     w\<lparr>fetched := fetched w @ map (replayUrl now) (filter (\<lambda>r. \<not> expired cfg now r) db),
       database := Some (filter (\<lambda>r. \<not> expired cfg now r \<and> \<not> delivered now net r) db)\<rparr>"
proof -
  have "filter (\<lambda>x. recordUrl x \<notin> recordUrl ` {r \<in> set db. dropped cfg now net r}) db
      = filter (\<lambda>r. \<not> expired cfg now r \<and> \<not> delivered now net r) db"
  proof (rule filter_cong[OF refl])
    fix x assume x: "x \<in> set db"
    have "\<And>r. r \<in> set db \<Longrightarrow> recordUrl r = recordUrl x \<Longrightarrow> r = x"
      using assms(2) x by (meson distinct_map inj_onD)
    then show "(recordUrl x \<notin> recordUrl ` {r \<in> set db. dropped cfg now net r})
        = (\<not> expired cfg now x \<and> \<not> delivered now net x)"
      using x by (auto simp: dropped_def)
  qed
  then show ?thesis
    using fold_replayRecord[OF assms(1), of cfg now net db]
    by (simp add: retryAnalyticsRequests_def assms(1))
qed

theorem retryAnalyticsRequests_replay_witness:
  "distinct (map recordUrl
      [\<lparr>recordUrl = ''https://www.google-analytics.com/collect?a'', timestamp = 0\<rparr>,
       \<lparr>recordUrl = ''https://www.google-analytics.com/collect?b'', timestamp = 89999000\<rparr>,
       \<lparr>recordUrl = ''https://www.google-analytics.com/collect?c'', timestamp = 89999500\<rparr>,
       \<lparr>recordUrl = ''https://www.google-analytics.com/collect?d'', timestamp = 89999900\<rparr>])
   \<and> retryAnalyticsRequests initialConfig 90000000
        (\<lambda>u. if u = ''https://www.google-analytics.com/collect?b&qt=1000''
              then Some \<lparr>status = 200, statusText = ''OK'', headers = [], body = []\<rparr>
              else if u = ''https://www.google-analytics.com/collect?c&qt=500''
              then Some \<lparr>status = 500, statusText = ''Error'', headers = [], body = []\<rparr>
              else None)
        \<lparr>caches = [], fetched = [],
         database = Some
           [\<lparr>recordUrl = ''https://www.google-analytics.com/collect?a'', timestamp = 0\<rparr>,
            \<lparr>recordUrl = ''https://www.google-analytics.com/collect?b'', timestamp = 89999000\<rparr>,
            \<lparr>recordUrl = ''https://www.google-analytics.com/collect?c'', timestamp = 89999500\<rparr>,
            \<lparr>recordUrl = ''https://www.google-analytics.com/collect?d'', timestamp = 89999900\<rparr>]\<rparr>
      = \<lparr>caches = [],
         fetched = [''https://www.google-analytics.com/collect?b&qt=1000'',
                    ''https://www.google-analytics.com/collect?c&qt=500'',
                    ''https://www.google-analytics.com/collect?d&qt=100''],
         database = Some
           [\<lparr>recordUrl = ''https://www.google-analytics.com/collect?c'', timestamp = 89999500\<rparr>,
            \<lparr>recordUrl = ''https://www.google-analytics.com/collect?d'', timestamp = 89999900\<rparr>]\<rparr>"
proof -
  let ?db = "[\<lparr>recordUrl = ''https://www.google-analytics.com/collect?a'', timestamp = 0\<rparr>,
       \<lparr>recordUrl = ''https://www.google-analytics.com/collect?b'', timestamp = 89999000\<rparr>,
       \<lparr>recordUrl = ''https://www.google-analytics.com/collect?c'', timestamp = 89999500\<rparr>,
       \<lparr>recordUrl = ''https://www.google-analytics.com/collect?d'', timestamp = 89999900\<rparr>]"
  let ?w = "\<lparr>caches = [], fetched = [], database = Some ?db\<rparr>"
  have db: "database ?w = Some ?db" by simp
  have d: "distinct (map recordUrl ?db)" by simp
  have n: "numberToString 1000 = ''1000''" "numberToString 500 = ''500''"
    "numberToString 100 = ''100''"
    by (simp_all add: numberToString_def natToString.simps digitChar_def)
  show ?thesis
    using d retryAnalyticsRequests_replay[OF db d, of initialConfig 90000000]
    by (simp add: expired_def delivered_def replayUrl_def queueTime_def initialConfig_def n)
qed


section \<open>The fetch flows\<close>

lemma ok_newResponse: "ok (newResponse b h)"
  by (simp add: ok_def newResponse_def)

lemma cacheMatch_fresh_append:
  "key \<notin> fst ` set d \<Longrightarrow> cacheMatch (d @ [(key, r)]) key = Some r"
  by (induction d) auto

lemma cacheMatch_cachePut: "cacheMatch (cachePut key r c) key = Some r"
  unfolding cachePut_def cacheDelete_def
  by (rule cacheMatch_fresh_append) auto

lemma cachesOpen_cachesPut:
  "cachesOpen (cachesPut name key r cs) name = cachePut key r (cachesOpen cs name)"
  by (induction cs) auto

lemma addToCache_value:
  "\<exists>w'. addToCache cfg cacheKey u r w = (Some r, w')"
  by (simp add: addToCache_def)

text \<open>A page without images and frames passes both rewriting stages unchanged.\<close>

lemma rewrite_plain_page:
  "deferYoutubeVideos initialConfig (deferImages initialConfig
      \<lparr>status = 404, statusText = ''Not Found'', headers = [], body = ''<p>gone</p>''\<rparr>)
   = \<lparr>status = 200, statusText = [], headers = [], body = ''<p>gone</p>''\<rparr>"
proof -
  have "indexOf ''<p>gone</p>'' ''<img'' = - 1"
    by code_simp
  then have images: "changeImages initialConfig ''<p>gone</p>'' = ''<p>gone</p>''"
    unfolding changeImages_def by (subst changeImagesLoop.simps) simp
  have "search youtubeRe [] ''<p>gone</p>'' = None"
    by code_simp
  then have videos: "replaceAll youtubeRe youtubeTemplate [] ''<p>gone</p>'' = ''<p>gone</p>''"
    by (subst replaceAll.simps) simp
  show ?thesis
    by (simp add: deferYoutubeVideos_def deferImages_def newResponse_def images videos)
qed

text \<open>
  Claim C1, as stated, fails when caching is disabled: \<^verbatim>\<open>addToCache\<close> writes only when
  \<^verbatim>\<open>response.ok && config.cache.enabled\<close>.  With \<^verbatim>\<open>cache.enabled\<close> false, a
  \<^verbatim>\<open>content\<close> request whose fetch succeeds leaves no entry for the request in the
  \<^verbatim>\<open>content\<close> cache.
\<close>

theorem content_flow_cache_disabled:
  "classify \<lparr>url = ''https://example.com/'', httpMethod = ''GET'', accept = ''text/html''\<rparr>
     = Content
   \<and> cacheMatch
        (cachesOpen
           (caches (snd (doFetch (initialConfig\<lparr>cacheEnabled := False\<rparr>)
              (\<lambda>u. Some \<lparr>status = 200, statusText = ''OK'', headers = [], body = ''<p>hi</p>''\<rparr>)
              \<lparr>url = ''https://example.com/'', httpMethod = ''GET'', accept = ''text/html''\<rparr>
              \<lparr>caches = [], fetched = [], database = None\<rparr>)))
           (cacheName ''content''))
        ''https://example.com/''
     = None"
proof -
  have c: "indexOf ''text/html'' ''text/html'' = 0"
    by code_simp
  show ?thesis
    by (simp add: classify_def c doFetch_def thenP_def catchP_def fetch_def addToCache_def
        initialConfig_def)
qed

text \<open>
  Claim C1, amended.  For every request of class \<^verbatim>\<open>content\<close> whose fetch succeeds,
  the response of the flow is the network response passed through \<^verbatim>\<open>deferImages\<close>
  and then \<^verbatim>\<open>deferYoutubeVideos\<close>: its body is the video pass (when it is enabled) of
  the image pass of the network body; one request went to the network.  When caching
  is enabled, the entry of the request in the \<^verbatim>\<open>content\<close> cache is afterwards that
  rewritten response; when caching is disabled, the caches are left as they were.
\<close>

theorem content_flow_caches_rewritten:
  assumes "classify req = Content" and "net (url req) = Some r"
  shows "fst (doFetch cfg net req w) = Some (deferYoutubeVideos cfg (deferImages cfg r))
     \<and> body (deferYoutubeVideos cfg (deferImages cfg r))
        = (if deferYoutubeEnabled cfg
           then replaceAll youtubeRe youtubeTemplate [] (changeImages cfg (body r))
           else changeImages cfg (body r))
     \<and> fetched (snd (doFetch cfg net req w)) = fetched w @ [url req]
     \<and> (cacheEnabled cfg \<longrightarrow>
          cacheMatch (cachesOpen (caches (snd (doFetch cfg net req w))) (cacheName ''content''))
            (url req)
          = Some (deferYoutubeVideos cfg (deferImages cfg r)))
     \<and> (\<not> cacheEnabled cfg \<longrightarrow> caches (snd (doFetch cfg net req w)) = caches w)"
  using assms
  by (simp add: doFetch_def thenP_def catchP_def fetch_def addToCache_def
      deferYoutubeVideos_def deferImages_def ok_newResponse
      cachesOpen_cachesPut cacheMatch_cachePut)
     (simp add: newResponse_def)

theorem content_flow_caches_rewritten_witness:
  "classify \<lparr>url = ''https://example.com/'', httpMethod = ''GET'', accept = ''text/html''\<rparr>
     = Content
   \<and> cacheEnabled initialConfig
   \<and> cacheMatch
        (cachesOpen
           (caches (snd (doFetch initialConfig
              (\<lambda>u. Some \<lparr>status = 404, statusText = ''Not Found'', headers = [],
                          body = ''<p>gone</p>''\<rparr>)
              \<lparr>url = ''https://example.com/'', httpMethod = ''GET'', accept = ''text/html''\<rparr>
              \<lparr>caches = [], fetched = [], database = None\<rparr>)))
           (cacheName ''content''))
        ''https://example.com/''
     = Some \<lparr>status = 200, statusText = [], headers = [], body = ''<p>gone</p>''\<rparr>"
proof -
  let ?req = "\<lparr>url = ''https://example.com/'', httpMethod = ''GET'', accept = ''text/html''\<rparr>"
  let ?r = "\<lparr>status = 404, statusText = ''Not Found'', headers = [], body = ''<p>gone</p>''\<rparr>"
  have "indexOf ''text/html'' ''text/html'' = 0"
    by code_simp
  then have 1: "classify ?req = Content"
    by (simp add: classify_def)
  have 2: "(\<lambda>u. Some ?r) (url ?req) = Some ?r" by simp
  have 3: "cacheEnabled initialConfig" by (simp add: initialConfig_def)
  show ?thesis
    using 1 3 rewrite_plain_page
      content_flow_caches_rewritten[OF 1 2, of initialConfig
        "\<lparr>caches = [], fetched = [], database = None\<rparr>"]
    by simp
qed

text \<open>
  Claim C2.  For every request of class \<^verbatim>\<open>image\<close> or \<^verbatim>\<open>static\<close> that some cache
  holds, the flow answers with the cached response and sends nothing to the network,
  whatever the network would do.
\<close>

theorem cache_first_serves_cached:
  assumes "classify req = Image \<or> classify req = Static"
    and "cachesMatch (caches w) (url req) = Some cached"
  shows "fst (doFetch cfg net req w) = Some cached
     \<and> fetched (snd (doFetch cfg net req w)) = fetched w"
  using assms
  by (auto simp: doFetch_def thenP_def catchP_def fetchFromCache_def addToCache_def)

theorem cache_first_serves_cached_witness:
  "classify \<lparr>url = ''https://example.com/a.png'', httpMethod = ''GET'', accept = ''image/png''\<rparr>
     = Image
   \<and> cachesMatch
        [(cacheName ''image'', [(''https://example.com/a.png'', newResponse ''png'' [])])]
        ''https://example.com/a.png''
      = Some (newResponse ''png'' [])
   \<and> fst (doFetch initialConfig (\<lambda>u. None)
        \<lparr>url = ''https://example.com/a.png'', httpMethod = ''GET'', accept = ''image/png''\<rparr>
        \<lparr>caches = [(cacheName ''image'', [(''https://example.com/a.png'', newResponse ''png'' [])])],
         fetched = [], database = None\<rparr>)
      = Some (newResponse ''png'' [])
   \<and> fetched (snd (doFetch initialConfig (\<lambda>u. None)
        \<lparr>url = ''https://example.com/a.png'', httpMethod = ''GET'', accept = ''image/png''\<rparr>
        \<lparr>caches = [(cacheName ''image'', [(''https://example.com/a.png'', newResponse ''png'' [])])],
         fetched = [], database = None\<rparr>))
      = []"
proof -
  let ?req = "\<lparr>url = ''https://example.com/a.png'', httpMethod = ''GET'', accept = ''image/png''\<rparr>"
  let ?w = "\<lparr>caches = [(cacheName ''image'', [(''https://example.com/a.png'', newResponse ''png'' [])])],
             fetched = [], database = None\<rparr>"
  have "indexOf ''image/png'' ''text/html'' = - 1" "indexOf ''image/png'' ''image'' = 0"
    by code_simp+
  then have c: "classify ?req = Image"
    by (simp add: classify_def)
  then have 1: "classify ?req = Image \<or> classify ?req = Static" ..
  have 2: "cachesMatch (caches ?w) (url ?req) = Some (newResponse ''png'' [])"
    by simp
  show ?thesis
    using c 2 cache_first_serves_cached[OF 1 2, of initialConfig "\<lambda>u. None"] by simp
qed


section \<open>What the caches hold\<close>

lemma storedResponses_Nil: "storedResponses [] = {}"
  by (simp add: storedResponses_def)

lemma storedResponses_Cons: "storedResponses ((n, c) # cs) = snd ` set c \<union> storedResponses cs"
  by (simp add: storedResponses_def)

lemma stored_cachePut: "snd ` set (cachePut key r c) \<subseteq> insert r (snd ` set c)"
  by (auto simp: cachePut_def cacheDelete_def)

lemma stored_cachesPut:
  "storedResponses (cachesPut name key r cs) \<subseteq> insert r (storedResponses cs)"
proof (induction cs)
  case Nil
  show ?case
    using stored_cachePut[of key r "[]"] by (simp add: storedResponses_Cons storedResponses_Nil)
next
  case (Cons nc cs)
  obtain n c where nc: "nc = (n, c)" by (cases nc)
  show ?case
    using Cons.IH stored_cachePut[of key r c]
    by (auto simp: nc storedResponses_Cons)
qed

lemma stored_addToCache:
  "x \<in> storedResponses (caches (snd (addToCache cfg cacheKey u r w))) \<Longrightarrow>
   x \<in> storedResponses (caches w) \<or> (ok x \<and> cacheEnabled cfg)"
  using stored_cachesPut[of cacheKey u r "caches w"]
  by (auto simp: addToCache_def split: if_splits)

lemma stored_doFetch:
  assumes "x \<in> storedResponses (caches (snd (doFetch cfg net req w)))"
  shows "x \<in> storedResponses (caches w) \<or> (ok x \<and> cacheEnabled cfg)"
proof (cases "classify req = Content")
  case True
  show ?thesis
  proof (cases "net (url req)")
    case None
    with True assms show ?thesis
      by (auto simp: doFetch_def thenP_def catchP_def fetch_def fetchFromCache_def
          split: option.splits)
  next
    case (Some r)
    let ?r = "deferYoutubeVideos cfg (deferImages cfg r)"
    let ?w = "w\<lparr>fetched := fetched w @ [url req]\<rparr>"
    obtain w' where a: "addToCache cfg (cacheName ''content'') (url req) ?r ?w = (Some ?r, w')"
      using addToCache_value by blast
    with Some True assms have "x \<in> storedResponses (caches w')"
      by (simp add: doFetch_def thenP_def catchP_def fetch_def)
    then show ?thesis
      using stored_addToCache[of x cfg "cacheName ''content''" "url req" ?r ?w] a by simp
  qed
next
  case False
  let ?key = "cacheName (resourceName (classify req))"
  show ?thesis
  proof (cases "cachesMatch (caches w) (url req)")
    case (Some cached)
    obtain w' where a: "addToCache cfg ?key (url req) cached w = (Some cached, w')"
      using addToCache_value by blast
    with Some False assms have "x \<in> storedResponses (caches w')"
      by (cases "classify req")
         (simp_all add: doFetch_def thenP_def catchP_def fetchFromCache_def)
    then show ?thesis
      using stored_addToCache[of x cfg ?key "url req" cached w] a by simp
  next
    case None
    show ?thesis
    proof (cases "net (url req)")
      case (Some r)
      let ?w = "w\<lparr>fetched := fetched w @ [url req]\<rparr>"
      obtain w' where a: "addToCache cfg ?key (url req) r ?w = (Some r, w')"
        using addToCache_value by blast
      with Some None False assms have "x \<in> storedResponses (caches w')"
        by (cases "classify req")
           (simp_all add: doFetch_def thenP_def catchP_def fetchFromCache_def fetch_def)
      then show ?thesis
        using stored_addToCache[of x cfg ?key "url req" r ?w] a by simp
    next
      case netNone: None
      with None False assms show ?thesis
        by (cases "classify req")
           (simp_all add: doFetch_def thenP_def catchP_def fetchFromCache_def fetch_def)
    qed
  qed
qed

lemma stored_prefetchEach:
  "x \<in> storedResponses (caches (prefetchEach cfg net urls w)) \<Longrightarrow>
   x \<in> storedResponses (caches w) \<or> (ok x \<and> cacheEnabled cfg)"
proof (induction urls arbitrary: w)
  case Nil
  then show ?case by simp
next
  case (Cons u urls)
  let ?w = "snd (thenP (fetch net u w) (\<lambda>r w'. addToCache cfg (cacheName ''content'') u r w'))"
  from Cons.prems have "x \<in> storedResponses (caches (prefetchEach cfg net urls ?w))"
    by simp
  from Cons.IH[OF this] have "x \<in> storedResponses (caches ?w) \<or> (ok x \<and> cacheEnabled cfg)" .
  moreover have "x \<in> storedResponses (caches ?w) \<Longrightarrow>
      x \<in> storedResponses (caches w) \<or> (ok x \<and> cacheEnabled cfg)"
  proof (cases "net u")
    case None
    then show "x \<in> storedResponses (caches ?w) \<Longrightarrow> ?thesis"
      by (simp add: thenP_def fetch_def)
  next
    case (Some r)
    then show "x \<in> storedResponses (caches ?w) \<Longrightarrow> ?thesis"
      using stored_addToCache[of x cfg "cacheName ''content''" u r "w\<lparr>fetched := fetched w @ [u]\<rparr>"]
      by (simp add: thenP_def fetch_def)
  qed
  ultimately show ?case by blast
qed

text \<open>
  The guard of \<^verbatim>\<open>addToCache\<close> in the flows that hand it the network response: in the
  \<^verbatim>\<open>image\<close>/\<^verbatim>\<open>static\<close> flow and in \<^verbatim>\<open>prefetch\<close>, a network response that is not ok
  leaves the caches as they were.
\<close>

lemma default_flow_skips_non_ok:
  assumes "classify req \<noteq> Content" and "cachesMatch (caches w) (url req) = None"
    and "net (url req) = Some r" and "\<not> ok r"
  shows "caches (snd (doFetch cfg net req w)) = caches w"
  using assms
  by (cases "classify req")
     (simp_all add: doFetch_def thenP_def catchP_def fetchFromCache_def fetch_def addToCache_def)

lemma prefetch_skips_non_ok:
  assumes "net u = Some r" and "\<not> ok r"
  shows "caches (prefetch cfg net [u] w) = caches w"
  using assms by (simp add: prefetch_def thenP_def fetch_def addToCache_def)

text \<open>An error page without images and frames passes both rewriting stages unchanged.\<close>

lemma rewrite_error_page:
  "deferYoutubeVideos initialConfig (deferImages initialConfig
      \<lparr>status = 500, statusText = ''Internal Server Error'', headers = [],
       body = ''<h1>Error</h1>''\<rparr>)
   = \<lparr>status = 200, statusText = [], headers = [], body = ''<h1>Error</h1>''\<rparr>"
proof -
  have "indexOf ''<h1>Error</h1>'' ''<img'' = - 1"
    by code_simp
  then have images: "changeImages initialConfig ''<h1>Error</h1>'' = ''<h1>Error</h1>''"
    unfolding changeImages_def by (subst changeImagesLoop.simps) simp
  have "search youtubeRe [] ''<h1>Error</h1>'' = None"
    by code_simp
  then have videos:
    "replaceAll youtubeRe youtubeTemplate [] ''<h1>Error</h1>'' = ''<h1>Error</h1>''"
    by (subst replaceAll.simps) simp
  show ?thesis
    by (simp add: deferYoutubeVideos_def deferImages_def newResponse_def images videos)
qed

text \<open>
  Claim C3 does not hold of the \<^verbatim>\<open>content\<close> flow.  The network answers every request
  with status 500 (not ok) and the body \<^verbatim>\<open><h1>Error</h1>\<close>; caching is enabled (the
  default configuration) and the caches are empty.  The \<^verbatim>\<open>content\<close> flow passes the
  response through \<^verbatim>\<open>deferImages\<close> and \<^verbatim>\<open>deferYoutubeVideos\<close> before \<^verbatim>\<open>addToCache\<close>;
  they rebuild it with status 200, so the test \<^verbatim>\<open>response.ok\<close> of \<^verbatim>\<open>addToCache\<close> passes
  and the error page is written to the \<^verbatim>\<open>content\<close> cache as an ok response.  When the
  network then fails, the flow answers the request with the stored error page.  On
  the same network the \<^verbatim>\<open>image\<close> flow and \<^verbatim>\<open>prefetch\<close>, which hand the network response
  to \<^verbatim>\<open>addToCache\<close> as it is, write nothing.
\<close>

theorem content_flow_stores_error_page:
  "\<not> ok \<lparr>status = 500, statusText = ''Internal Server Error'', headers = [],
           body = ''<h1>Error</h1>''\<rparr>
   \<and> cacheEnabled initialConfig
   \<and> classify \<lparr>url = ''https://example.com/'', httpMethod = ''GET'', accept = ''text/html''\<rparr>
       = Content
   \<and> doFetch initialConfig
        (\<lambda>u. Some \<lparr>status = 500, statusText = ''Internal Server Error'', headers = [],
                    body = ''<h1>Error</h1>''\<rparr>)
        \<lparr>url = ''https://example.com/'', httpMethod = ''GET'', accept = ''text/html''\<rparr>
        \<lparr>caches = [], fetched = [], database = None\<rparr>
       = (Some \<lparr>status = 200, statusText = [], headers = [], body = ''<h1>Error</h1>''\<rparr>,
          \<lparr>caches = [(cacheName ''content'',
                       [(''https://example.com/'',
                         \<lparr>status = 200, statusText = [], headers = [],
                          body = ''<h1>Error</h1>''\<rparr>)])],
           fetched = [''https://example.com/''], database = None\<rparr>)
   \<and> fst (doFetch initialConfig (\<lambda>u. None)
        \<lparr>url = ''https://example.com/'', httpMethod = ''GET'', accept = ''text/html''\<rparr>
        \<lparr>caches = [(cacheName ''content'',
                     [(''https://example.com/'',
                       \<lparr>status = 200, statusText = [], headers = [],
                        body = ''<h1>Error</h1>''\<rparr>)])],
         fetched = [''https://example.com/''], database = None\<rparr>)
       = Some \<lparr>status = 200, statusText = [], headers = [], body = ''<h1>Error</h1>''\<rparr>
   \<and> classify \<lparr>url = ''https://example.com/a.png'', httpMethod = ''GET'',
                 accept = ''image/png''\<rparr>
       = Image
   \<and> caches (snd (doFetch initialConfig
        (\<lambda>u. Some \<lparr>status = 500, statusText = ''Internal Server Error'', headers = [],
                    body = ''<h1>Error</h1>''\<rparr>)
        \<lparr>url = ''https://example.com/a.png'', httpMethod = ''GET'', accept = ''image/png''\<rparr>
        \<lparr>caches = [], fetched = [], database = None\<rparr>))
       = []
   \<and> caches (prefetch initialConfig
        (\<lambda>u. Some \<lparr>status = 500, statusText = ''Internal Server Error'', headers = [],
                    body = ''<h1>Error</h1>''\<rparr>)
        [''https://example.com/''] \<lparr>caches = [], fetched = [], database = None\<rparr>)
       = []"
proof -
  let ?r = "\<lparr>status = 500, statusText = ''Internal Server Error'', headers = [],
             body = ''<h1>Error</h1>''\<rparr>"
  let ?R = "\<lparr>status = 200, statusText = [], headers = [], body = ''<h1>Error</h1>''\<rparr>"
  let ?net = "\<lambda>u::string. Some ?r"
  let ?page = "\<lparr>url = ''https://example.com/'', httpMethod = ''GET'', accept = ''text/html''\<rparr>"
  let ?png = "\<lparr>url = ''https://example.com/a.png'', httpMethod = ''GET'',
               accept = ''image/png''\<rparr>"
  let ?w = "\<lparr>caches = [], fetched = [], database = None\<rparr>"
  let ?w' = "\<lparr>caches = [(cacheName ''content'', [(''https://example.com/'', ?R)])],
              fetched = [''https://example.com/''], database = None\<rparr>"
  have notok: "\<not> ok ?r"
    by (simp add: ok_def)
  have enabled: "cacheEnabled initialConfig"
    by (simp add: initialConfig_def)
  have "indexOf ''text/html'' ''text/html'' = 0"
    by code_simp
  then have page: "classify ?page = Content"
    by (simp add: classify_def)
  have "indexOf ''image/png'' ''text/html'' = - 1" "indexOf ''image/png'' ''image'' = 0"
    by code_simp+
  then have png: "classify ?png = Image"
    by (simp add: classify_def)
  have online: "doFetch initialConfig ?net ?page ?w = (Some ?R, ?w')"
    using rewrite_error_page enabled
    by (simp add: doFetch_def page thenP_def catchP_def fetch_def addToCache_def ok_def
        cachePut_def cacheDelete_def)
  have offline: "fst (doFetch initialConfig (\<lambda>u. None) ?page ?w') = Some ?R"
    by (simp add: doFetch_def page thenP_def catchP_def fetch_def fetchFromCache_def)
  have image: "caches (snd (doFetch initialConfig ?net ?png ?w)) = []"
    using default_flow_skips_non_ok[of ?png ?w ?net ?r initialConfig] png notok by simp
  have pre: "caches (prefetch initialConfig ?net [''https://example.com/''] ?w) = []"
    using prefetch_skips_non_ok[of ?net "''https://example.com/''" ?r initialConfig ?w] notok
    by simp
  from notok enabled page online offline png image pre show ?thesis
    by (intro conjI)
qed

text \<open>
  Claim C10.  \<^verbatim>\<open>deferImages\<close> and \<^verbatim>\<open>deferYoutubeVideos\<close> build their result with
  \<^verbatim>\<open>new Response(body, { headers: copy.headers })\<close>: whatever the status of the
  response they are given (404, 500, ...), the response they return has status 200
  and is ok, and so has the response the \<^verbatim>\<open>content\<close> flow gets from the two stages.
\<close>

theorem rewrite_discards_status:
  "status (deferImages cfg r) = 200 \<and> ok (deferImages cfg r)
   \<and> status (deferYoutubeVideos cfg r) = 200 \<and> ok (deferYoutubeVideos cfg r)
   \<and> status (deferYoutubeVideos cfg (deferImages cfg r)) = 200
   \<and> ok (deferYoutubeVideos cfg (deferImages cfg r))"
  by (simp add: deferImages_def deferYoutubeVideos_def newResponse_def ok_def)


section \<open>Which requests the worker handles\<close>

text \<open>The path name of a parsed URL starts with a slash.\<close>

lemma parseURL_pathname_slash:
  assumes "parseURL u = Some (origin, pathname)"
  shows "\<exists>rest. pathname = CHR ''/'' # rest"
proof -
  define hostStart where "hostStart = nat (indexOf u ''://'') + 3"
  define tail where "tail = drop hostStart u"
  define rest where "rest = dropWhile (\<lambda>c. c \<notin> set ''/?#'') tail"
  define path where "path = takeWhile (\<lambda>c. c \<notin> set ''?#'') rest"
  have "drop (hostStart + length (takeWhile (\<lambda>c. c \<notin> set ''/?#'') tail)) u = rest"
    unfolding rest_def tail_def
    by (simp add: dropWhile_eq_drop add.commute)
  with assms have pathname: "pathname = (if path = [] then ''/'' else path)"
    unfolding parseURL_def Let_def hostStart_def[symmetric] tail_def[symmetric] path_def
    by (simp split: if_splits)
  show ?thesis
  proof (cases "path = []")
    case True
    with pathname show ?thesis by simp
  next
    case False
    then have ne: "rest \<noteq> []" unfolding path_def by auto
    then have "\<not> (hd rest \<notin> set ''/?#'')"
      unfolding rest_def by (rule hd_dropWhile)
    moreover from False ne have "hd rest \<notin> set ''?#''" "hd path = hd rest"
      unfolding path_def by (cases rest; auto split: if_splits)+
    ultimately have "hd path = CHR ''/''" by auto
    with False pathname show ?thesis
      by (cases path) auto
  qed
qed

text \<open>
  So the first criterion of \<^verbatim>\<open>shouldHandleFetch\<close>, \<^verbatim>\<open>'sw.min.js' !== pathname\<close>, holds
  of every request, and the function decides by the other four.
\<close>

lemma isSWjs_always:
  "parseURL u = Some (origin, pathname) \<Longrightarrow> ''sw.min.js'' \<noteq> pathname"
  using parseURL_pathname_slash by fastforce

lemma shouldHandleFetch_iff:
  "shouldHandleFetch cfg selfOrigin req =
     (case parseURL (url req) of
        None \<Rightarrow> False
      | Some (origin, pathname) \<Rightarrow>
          ''GET'' = httpMethod req \<and> origin = selfOrigin
          \<and> (case noCachePatterns cfg of
                Some patterns \<Rightarrow> \<forall>pattern \<in> set patterns. \<not> pattern pathname
              | None \<Rightarrow> True)
          \<and> (case noCacheItems cfg of
                Some items \<Rightarrow> pathname \<notin> set items
              | None \<Rightarrow> True))"
proof (cases "parseURL (url req)")
  case None
  then show ?thesis by (simp add: shouldHandleFetch_def)
next
  case (Some op)
  obtain origin pathname where op: "op = (origin, pathname)" by (cases op)
  have "''sw.min.js'' \<noteq> pathname"
    using Some op isSWjs_always by blast
  with Some op show ?thesis
    by (auto simp: shouldHandleFetch_def Let_def list_ex_iff filter_empty_conv
        split: option.splits)
qed

text \<open>
  Claim C6.  The claim makes a request for the worker's own script ineligible.  The
  worker is installed as \<^verbatim>\<open>/sw.min.js\<close> at the web root (README), and the path name
  of a URL starts with a slash, so the comparison with \<^verbatim>\<open>'sw.min.js'\<close> never fails:
  a same-origin GET request for \<^verbatim>\<open>https://example.com/sw.min.js\<close> is eligible.
\<close>

theorem shouldHandleFetch_own_script:
  "parseURL ''https://example.com/sw.min.js'' = Some (''https://example.com'', ''/sw.min.js'')
   \<and> shouldHandleFetch initialConfig ''https://example.com''
        \<lparr>url = ''https://example.com/sw.min.js'', httpMethod = ''GET'', accept = ''*/*''\<rparr>"
proof -
  have p: "parseURL ''https://example.com/sw.min.js'' = Some (''https://example.com'', ''/sw.min.js'')"
    by code_simp
  then show ?thesis
    by (simp add: shouldHandleFetch_def initialConfig_def)
qed


section \<open>The image pass\<close>

text \<open>The placeholder holds no \<^verbatim>\<open>$\<close>, so the replacement template copies it as it is.\<close>

lemma b64_no_dollar: "b64 n \<noteq> CHR ''$''"
proof -
  let ?abc = "''ABCDEFGHIJKLMNOPQRSTUVWXYZabcdefghijklmnopqrstuvwxyz0123456789+/''"
  have "n mod 64 < length ?abc" by simp
  then have "?abc ! (n mod 64) \<in> set ?abc" by (rule nth_mem)
  moreover have "CHR ''$'' \<notin> set ?abc" by simp
  ultimately show ?thesis unfolding b64_def by metis
qed

lemma btoa_no_dollar: "CHR ''$'' \<notin> set (btoa s)"
  by (induction s rule: btoa.induct) (simp_all add: Let_def b64_no_dollar[symmetric])

lemma newBase64Image_no_dollar: "CHR ''$'' \<notin> set (newBase64Image cfg w h)"
  by (simp add: newBase64Image_def btoa_no_dollar del: btoa.simps)

lemma expand_plain:
  "CHR ''$'' \<notin> set p \<Longrightarrow>
   expand (p @ t) matched pre post m caps = p @ expand t matched pre post m caps"
  by (induction p) auto

lemma expand_no_dollar:
  "CHR ''$'' \<notin> set t \<Longrightarrow> expand t matched pre post m caps = t"
  using expand_plain[of t "[]" matched pre post m caps] by simp

text \<open>
  A pattern that starts with a literal text matches nowhere in a string that does not
  hold the text.
\<close>

lemma rmatch_lit:
  "rmatch (lit p) (s, caps) = (if startsWith s p then [(drop (length p) s, caps)] else [])"
proof (induction p arbitrary: s)
  case Nil
  show ?case by simp
next
  case (Cons c p)
  show ?case
    by (cases s) (simp_all add: Cons.IH)
qed

lemma search_without_text:
  "p \<noteq> [] \<Longrightarrow> indexFrom i s p = - 1 \<Longrightarrow> search (Seq (lit p) r) skipped s = None"
proof (induction s arbitrary: i skipped)
  case Nil
  then have "\<not> startsWith [] p" by (cases p) auto
  then show ?case
    by (subst search.simps) (simp add: rmatch_lit)
next
  case (Cons c cs)
  from Cons.prems(2) have no: "\<not> startsWith (c # cs) p" and rest: "indexFrom (Suc i) cs p = - 1"
    by (auto split: if_splits)
  have "search (Seq (lit p) r) (skipped @ [c]) cs = None"
    using Cons.IH[OF Cons.prems(1) rest] .
  with no show ?case
    by (subst search.simps) (simp add: rmatch_lit)
qed

lemma no_width_text: "indexOf img ''width=\"'' = - 1 \<Longrightarrow> matchGroup1 widthRe img = None"
  using search_without_text[of "''width=\"''" 0 img _ "[]"]
  by (simp add: matchGroup1_def widthRe_def indexOf_def)

lemma no_height_text: "indexOf img ''height=\"'' = - 1 \<Longrightarrow> matchGroup1 heightRe img = None"
  using search_without_text[of "''height=\"''" 0 img _ "[]"]
  by (simp add: matchGroup1_def heightRe_def indexOf_def)

lemma deferred_no_dollar: "CHR ''$'' \<notin> set (deferred cfg)"
  by (simp add: deferred_def newBase64Image_no_dollar)

lemma example_width: "matchGroup1 widthRe example = Some ''10''"
  unfolding example_def by code_simp

lemma example_height: "matchGroup1 heightRe example = Some ''10''"
  unfolding example_def by code_simp

lemma example_src: "search srcRe [] example =
  Some (''<img data-defer '', ''src=\"a.png\" width=\"10\" height=\"10\"'', ''>'',
        [(1, ''a.png\" width=\"10\" height=\"10'')])"
  unfolding example_def by code_simp

lemma example_rest: "search srcRe [] ''>'' = None"
  by code_simp

lemma setImage_example: "setImage cfg example = deferred cfg"
proof -
  let ?P = "newBase64Image cfg ''10'' ''10''"
  let ?tmpl = "''src=\"'' @ ?P @ ''\" data-defer-src=\"$1\"''"
  have groups: "groupCount srcRe = 2"
    by (simp add: srcRe_def plus_def digit_def dot_def)
  have rest: "replaceAll srcRe t pre ''>'' = ''>''" for t pre
    by (subst replaceAll.simps) (simp add: example_rest)
  have "replaceAll srcRe ?tmpl [] example = deferred cfg"
    by (subst replaceAll.simps)
       (simp add: example_src groups rest deferred_def expand_plain newBase64Image_no_dollar
          digitVal_def capture_def)
  then show ?thesis
    by (simp add: setImage_def example_width example_height)
qed

lemma changeImages_example: "changeImages cfg example = deferred cfg"
proof -
  have i0: "indexOf example ''<img'' = 0"
    unfolding example_def by code_simp
  have part: "getTextPart example ''<img'' ''>'' = example"
    unfolding example_def by code_simp
  have marker: "indexOf example ''data-defer'' = 5"
    unfolding example_def by code_simp
  have self: "indexOf example example = 0"
    unfolding example_def by code_simp
  have tail: "substr example 1 (int (length example)) = tl example"
    unfolding example_def by code_simp
  have fin: "indexOf (tl example) ''<img'' = - 1"
    unfolding example_def by code_simp
  have repl: "stringReplace example example (deferred cfg) = deferred cfg"
    by (simp add: stringReplace_def self expand_no_dollar[OF deferred_no_dollar])
  show ?thesis
    unfolding changeImages_def
    apply (subst changeImagesLoop.simps)
    apply (simp add: i0 part marker self tail setImage_example repl Let_def)
    apply (subst changeImagesLoop.simps)
    apply (simp add: fin)
    done
qed

text \<open>
  The part of the round trip that holds: the image pass (\<^verbatim>\<open>setImage\<close> on the element,
  and \<^verbatim>\<open>changeImages\<close> on a page that is the element) turns
  \<^verbatim>\<open><img data-defer src="a.png" width="10" height="10">\<close> into the element whose
  \<^verbatim>\<open>src\<close> is the placeholder \<^verbatim>\<open>newBase64Image\<close> generates for 10 by 10, a data URI,
  and whose \<^verbatim>\<open>data-defer-src\<close> is \<^verbatim>\<open>a.png\<close>, for every configured colour.
\<close>

lemma image_pass_example:
  "setImage cfg ''<img data-defer src=\"a.png\" width=\"10\" height=\"10\">''
     = ''<img data-defer src=\"'' @ newBase64Image cfg ''10'' ''10''
       @ ''\" data-defer-src=\"a.png\" width=\"10\" height=\"10\">''
   \<and> changeImages cfg ''<img data-defer src=\"a.png\" width=\"10\" height=\"10\">''
     = ''<img data-defer src=\"'' @ newBase64Image cfg ''10'' ''10''
       @ ''\" data-defer-src=\"a.png\" width=\"10\" height=\"10\">''
   \<and> take 26 (newBase64Image cfg ''10'' ''10'') = ''data:image/svg+xml;base64,''"
proof -
  have "take 26 (newBase64Image cfg ''10'' ''10'') = ''data:image/svg+xml;base64,''"
    by (simp add: newBase64Image_def del: btoa.simps)
  then show ?thesis
    using setImage_example[of cfg] changeImages_example[of cfg]
    by (simp add: example_def deferred_def)
qed

text \<open>
  \<^verbatim>\<open>setImage\<close> leaves alone an element in which the text \<^verbatim>\<open>width="\<close> or the text
  \<^verbatim>\<open>height="\<close> does not occur.
\<close>

lemma setImage_without_size_text:
  assumes "indexOf img ''width=\"'' = - 1 \<or> indexOf img ''height=\"'' = - 1"
  shows "setImage cfg img = img"
proof -
  from assms have "matchGroup1 widthRe img = None \<or> matchGroup1 heightRe img = None"
  proof
    assume "indexOf img ''width=\"'' = - 1"
    then have "matchGroup1 widthRe img = None" by (rule no_width_text)
    then show ?thesis ..
  next
    assume "indexOf img ''height=\"'' = - 1"
    then have "matchGroup1 heightRe img = None" by (rule no_height_text)
    then show ?thesis ..
  qed
  then show ?thesis
    by (auto simp: setImage_def split: option.splits)
qed

text \<open>
  An element without a width attribute that holds the text \<^verbatim>\<open>width="300"\<close> in another
  attribute: \<^verbatim>\<open>setImage\<close> looks for \<^verbatim>\<open>/width="(\d+)"/\<close> anywhere in the text of the
  element, finds it inside \<^verbatim>\<open>data-width="300"\<close> and rewrites the element.
\<close>

lemma setImage_data_width:
  "setImage initialConfig ''<img data-defer data-width=\"300\" height=\"200\" src=\"a.png\">''
     = ''<img data-defer data-width=\"300\" height=\"200\" src=\"''
       @ newBase64Image initialConfig ''300'' ''200'' @ ''\" data-defer-src=\"a.png\">''"
proof -
  let ?img = "''<img data-defer data-width=\"300\" height=\"200\" src=\"a.png\">''"
  let ?P = "newBase64Image initialConfig ''300'' ''200''"
  have w: "matchGroup1 widthRe ?img = Some ''300''"
    by code_simp
  have h: "matchGroup1 heightRe ?img = Some ''200''"
    by code_simp
  have src: "search srcRe [] ?img =
      Some (''<img data-defer data-width=\"300\" height=\"200\" '', ''src=\"a.png\"'', ''>'',
            [(1, ''a.png'')])"
    by code_simp
  have groups: "groupCount srcRe = 2"
    by (simp add: srcRe_def plus_def digit_def dot_def)
  have rest: "replaceAll srcRe t pre ''>'' = ''>''" for t pre
    by (subst replaceAll.simps) (simp add: example_rest)
  have "replaceAll srcRe (''src=\"'' @ ?P @ ''\" data-defer-src=\"$1\"'') [] ?img
      = ''<img data-defer data-width=\"300\" height=\"200\" src=\"'' @ ?P
        @ ''\" data-defer-src=\"a.png\">''"
    by (subst replaceAll.simps)
       (simp add: src groups rest expand_plain newBase64Image_no_dollar digitVal_def capture_def)
  then show ?thesis
    by (simp add: setImage_def w h)
qed

lemma changeImages_data_width:
  "changeImages initialConfig
     ''<img data-defer data-width=\"300\" height=\"200\" src=\"a.png\">''
     = ''<img data-defer data-width=\"300\" height=\"200\" src=\"''
       @ newBase64Image initialConfig ''300'' ''200'' @ ''\" data-defer-src=\"a.png\">''"
proof -
  let ?img = "''<img data-defer data-width=\"300\" height=\"200\" src=\"a.png\">''"
  let ?new = "''<img data-defer data-width=\"300\" height=\"200\" src=\"''
       @ newBase64Image initialConfig ''300'' ''200'' @ ''\" data-defer-src=\"a.png\">''"
  have i0: "indexOf ?img ''<img'' = 0"
    by code_simp
  have part: "getTextPart ?img ''<img'' ''>'' = ?img"
    by code_simp
  have marker: "indexOf ?img ''data-defer'' = 5"
    by code_simp
  have self: "indexOf ?img ?img = 0"
    by code_simp
  have tail: "substr ?img 1 58 = tl ?img"
    by code_simp
  have fin: "indexOf (tl ?img) ''<img'' = - 1"
    by code_simp
  have plain: "CHR ''$'' \<notin> set ?new"
    by (simp add: newBase64Image_no_dollar)
  have repl: "stringReplace ?img ?img ?new = ?new"
    using expand_no_dollar[OF plain] by (simp add: stringReplace_def self)
  have step: "changeImagesLoop initialConfig ?img ?img
      = changeImagesLoop initialConfig ?new (tl ?img)"
    using setImage_data_width repl tail
    by (subst changeImagesLoop.simps) (simp add: i0 part marker self Let_def)
  have stop: "changeImagesLoop initialConfig ?new (tl ?img) = ?new"
    using fin by (subst changeImagesLoop.simps) simp
  show ?thesis
    unfolding changeImages_def step stop ..
qed

text \<open>
  Claim C9 does not hold of two elements that carry the marker and miss an attribute.
  Its first half holds (lemma \<open>image_pass_example\<close>).

  The attributes of \<^verbatim>\<open><img data-defer data-width="300" height="200" src="a.png">\<close> are
  \<^verbatim>\<open>data-defer\<close>, \<^verbatim>\<open>data-width\<close>, \<^verbatim>\<open>height\<close> and \<^verbatim>\<open>src\<close>: it has no width attribute.
  The image pass takes 300 for its width and rewrites the element, in \<^verbatim>\<open>setImage\<close> and
  in \<^verbatim>\<open>changeImages\<close>.

  \<^verbatim>\<open><img data-defer alt="$$" src="a.png" width="10">\<close> has no height attribute.
  \<^verbatim>\<open>setImage\<close> returns it as it is, and \<^verbatim>\<open>changeImages\<close> puts it back with
  \<^verbatim>\<open>html.replace(oldImage, newImage)\<close>, which reads the \<^verbatim>\<open>$$\<close> of the new text as the
  template of one \<^verbatim>\<open>$\<close>: the page comes back with \<^verbatim>\<open>alt="$"\<close>.
\<close>

theorem image_pass_alters_unsized_elements:
  "indexOf ''<img data-defer data-width=\"300\" height=\"200\" src=\"a.png\">'' '' width='' = - 1
   \<and> setImage initialConfig
        ''<img data-defer data-width=\"300\" height=\"200\" src=\"a.png\">''
     = ''<img data-defer data-width=\"300\" height=\"200\" src=\"''
       @ newBase64Image initialConfig ''300'' ''200'' @ ''\" data-defer-src=\"a.png\">''
   \<and> changeImages initialConfig
        ''<img data-defer data-width=\"300\" height=\"200\" src=\"a.png\">''
     = ''<img data-defer data-width=\"300\" height=\"200\" src=\"''
       @ newBase64Image initialConfig ''300'' ''200'' @ ''\" data-defer-src=\"a.png\">''
   \<and> changeImages initialConfig
        ''<img data-defer data-width=\"300\" height=\"200\" src=\"a.png\">''
     \<noteq> ''<img data-defer data-width=\"300\" height=\"200\" src=\"a.png\">''
   \<and> indexOf ''<img data-defer alt=\"$$\" src=\"a.png\" width=\"10\">'' ''height'' = - 1
   \<and> setImage initialConfig ''<img data-defer alt=\"$$\" src=\"a.png\" width=\"10\">''
     = ''<img data-defer alt=\"$$\" src=\"a.png\" width=\"10\">''
   \<and> changeImages initialConfig ''<img data-defer alt=\"$$\" src=\"a.png\" width=\"10\">''
     = ''<img data-defer alt=\"$\" src=\"a.png\" width=\"10\">''"
proof -
  let ?dw = "''<img data-defer data-width=\"300\" height=\"200\" src=\"a.png\">''"
  let ?P = "newBase64Image initialConfig ''300'' ''200''"
  let ?img = "''<img data-defer alt=\"$$\" src=\"a.png\" width=\"10\">''"
  have nowidth: "indexOf ?dw '' width='' = - 1"
    by code_simp
  have "take 1 ?P = ''d''"
    by (simp add: newBase64Image_def del: btoa.simps)
  then have "?P \<noteq> [] \<and> hd ?P = CHR ''d''"
    by (cases ?P) auto
  then have differs: "''<img data-defer data-width=\"300\" height=\"200\" src=\"'' @ ?P
        @ ''\" data-defer-src=\"a.png\">'' \<noteq> ?dw"
    by (cases ?P) auto
  have noheight: "indexOf ?img ''height'' = - 1"
    by code_simp
  have "indexOf ?img ''height=\"'' = - 1"
    by code_simp
  then have same: "setImage initialConfig ?img = ?img"
    using setImage_without_size_text[of ?img initialConfig] by simp
  have i0: "indexOf ?img ''<img'' = 0"
    by code_simp
  have part: "getTextPart ?img ''<img'' ''>'' = ?img"
    by code_simp
  have marker: "indexOf ?img ''data-defer'' = 5"
    by code_simp
  have self: "indexOf ?img ?img = 0"
    by code_simp
  have tail: "substr ?img 1 48 = tl ?img"
    by code_simp
  have fin: "indexOf (tl ?img) ''<img'' = - 1"
    by code_simp
  have repl: "stringReplace ?img ?img ?img = ''<img data-defer alt=\"$\" src=\"a.png\" width=\"10\">''"
    by code_simp
  have step: "changeImagesLoop initialConfig ?img ?img
      = changeImagesLoop initialConfig ''<img data-defer alt=\"$\" src=\"a.png\" width=\"10\">''
          (tl ?img)"
    using same repl tail
    by (subst changeImagesLoop.simps) (simp add: i0 part marker self Let_def)
  have stop: "changeImagesLoop initialConfig ''<img data-defer alt=\"$\" src=\"a.png\" width=\"10\">''
      (tl ?img) = ''<img data-defer alt=\"$\" src=\"a.png\" width=\"10\">''"
    using fin by (subst changeImagesLoop.simps) simp
  have dollar: "changeImages initialConfig ?img
      = ''<img data-defer alt=\"$\" src=\"a.png\" width=\"10\">''"
    unfolding changeImages_def step stop ..
  from differs have changed: "changeImages initialConfig ?dw \<noteq> ?dw"
    unfolding changeImages_data_width .
  from nowidth setImage_data_width changeImages_data_width changed noheight same dollar
  show ?thesis
    by (intro conjI)
qed

end
